theory Spec2Isabelle
  imports Complex_Main "HOL-Library.Word" "HOL-Library.Signed_Division"
    "HOL-Library.Product_Lexorder" "HOL-Library.List_Lexorder"
begin

section \<open>JavaScript values\<close>

text \<open>
  A JavaScript string is a sequence of UTF-16 code units. \<open>js\<close> writes a literal.
  \<open>charCodeAt(0)\<close> of the empty string is NaN; NaN is the value \<open>None\<close> of an
  optional number, and it propagates through \<open>+\<close>, \<open>*\<close>, \<open>Math.sin\<close>,
  \<open>Math.floor\<close> and \<open>%\<close>.
\<close>

type_synonym jsstring = "16 word list"

definition js :: "string \<Rightarrow> jsstring" where
  "js s = map of_char s"

definition charCodeAt0 :: "jsstring \<Rightarrow> int option" where
  "charCodeAt0 s = (case s of [] \<Rightarrow> None | c # _ \<Rightarrow> Some (uint c))"

text \<open>
  A \<open>Date\<close> is read through \<open>getFullYear\<close> and \<open>getMonth\<close> only.
  \<open>new Date(y, m, 1)\<close> carries a month index outside 0..11 into the year, and
  reads a year argument in 0..99 as 1900 + y.
\<close>

record date =
  getFullYear :: int
  getMonth :: int

definition newDate :: "int \<Rightarrow> int \<Rightarrow> date" where
  "newDate y m =
     \<lparr>getFullYear = (if 0 \<le> y \<and> y \<le> 99 then 1900 + y else y) + m div 12,
      getMonth = m mod 12\<rparr>"

section \<open>Rate limiting middleware\<close>

record rate_window =
  count :: int
  resetTime :: int

type_synonym rate_state = "jsstring \<rightharpoonup> rate_window"

datatype verdict = Next | TooManyRequests

definition RATE_LIMIT :: int where
  "RATE_LIMIT = 100"

text \<open>
  \<open>rateLimiter ip now rateLimit\<close>: the table after the request and what the
  middleware did, \<open>next()\<close> or the 429 response. The table is a plain object
  keyed by \<open>req.ip\<close>; a key is an address as Express gives it, never the name of a
  property that every object inherits. \<open>now\<close> is \<open>Date.now()\<close>, in
  milliseconds.
\<close>

definition rateLimiter :: "jsstring \<Rightarrow> int \<Rightarrow> rate_state \<Rightarrow> rate_state \<times> verdict" where
  "rateLimiter ip now rateLimit =
     (case rateLimit ip of
        None \<Rightarrow> (rateLimit(ip \<mapsto> \<lparr>count = 1, resetTime = now + 60000\<rparr>), Next)
      | Some w \<Rightarrow>
          if now > resetTime w
          then (rateLimit(ip \<mapsto> \<lparr>count = 1, resetTime = now + 60000\<rparr>), Next)
          else if count w \<ge> RATE_LIMIT then (rateLimit, TooManyRequests)
          else (rateLimit(ip \<mapsto> w\<lparr>count := count w + 1\<rparr>), Next))"

text \<open>
  A run of the middleware over a sequence of requests \<open>(ip, now)\<close>, in arrival
  order: \<open>serve\<close> gives the final table, \<open>client_verdicts ip\<close> the verdicts
  the requests of client \<open>ip\<close> received.
\<close>

fun serve :: "(jsstring \<times> int) list \<Rightarrow> rate_state \<Rightarrow> rate_state" where
  "serve [] rateLimit = rateLimit"
| "serve ((ip, now) # reqs) rateLimit = serve reqs (fst (rateLimiter ip now rateLimit))"

fun client_verdicts :: "jsstring \<Rightarrow> (jsstring \<times> int) list \<Rightarrow> rate_state \<Rightarrow> verdict list" where
  "client_verdicts c [] rateLimit = []"
| "client_verdicts c ((ip, now) # reqs) rateLimit =
     (if ip = c then [snd (rateLimiter ip now rateLimit)] else [])
       @ client_verdicts c reqs (fst (rateLimiter ip now rateLimit))"

section \<open>District directory\<close>

record district =
  name :: jsstring
  lat :: real
  lng :: real
  code :: jsstring

definition MAHARASHTRA_DISTRICTS :: "district list" where
  "MAHARASHTRA_DISTRICTS =
     [\<lparr>name = js ''Kolhapur'', lat = 16.7050, lng = 74.2433, code = js ''KOL''\<rparr>,
      \<lparr>name = js ''Mumbai Suburban'', lat = 19.0760, lng = 72.8777, code = js ''MUM''\<rparr>,
      \<lparr>name = js ''Pune'', lat = 18.5204, lng = 73.8567, code = js ''PUN''\<rparr>,
      \<lparr>name = js ''Nagpur'', lat = 21.1458, lng = 79.0882, code = js ''NAG''\<rparr>,
      \<lparr>name = js ''Nashik'', lat = 19.9975, lng = 73.7898, code = js ''NAS''\<rparr>,
      \<lparr>name = js ''Aurangabad'', lat = 19.8762, lng = 75.3433, code = js ''AUR''\<rparr>,
      \<lparr>name = js ''Solapur'', lat = 17.6599, lng = 75.9064, code = js ''SOL''\<rparr>,
      \<lparr>name = js ''Thane'', lat = 19.2183, lng = 72.9781, code = js ''THA''\<rparr>,
      \<lparr>name = js ''Ahmednagar'', lat = 19.0948, lng = 74.7480, code = js ''AHM''\<rparr>,
      \<lparr>name = js ''Satara'', lat = 17.6805, lng = 73.9903, code = js ''SAT''\<rparr>,
      \<lparr>name = js ''Sangli'', lat = 16.8524, lng = 74.5815, code = js ''SAN''\<rparr>,
      \<lparr>name = js ''Jalgaon'', lat = 21.0077, lng = 75.5626, code = js ''JAL''\<rparr>,
      \<lparr>name = js ''Amravati'', lat = 20.9320, lng = 77.7523, code = js ''AMR''\<rparr>,
      \<lparr>name = js ''Raigad'', lat = 18.5204, lng = 73.0169, code = js ''RAI''\<rparr>,
      \<lparr>name = js ''Ratnagiri'', lat = 16.9902, lng = 73.3120, code = js ''RAT''\<rparr>]"

section \<open>Distance\<close>

text \<open>
  \<open>getDistance\<close> as the source writes it, over the real numbers: \<open>Math.sin\<close>,
  \<open>Math.cos\<close>, \<open>Math.sqrt\<close> and \<open>Math.atan2\<close> are the functions they
  approximate. \<open>Math.sqrt\<close> of a negative number is NaN, so the value is NaN
  (\<open>None\<close>) when \<open>a\<close> or \<open>1 - a\<close> is negative.

  The process evaluates this function in double precision, and there the result can be
  NaN where the exact value is a number (the term \<open>a\<close> rounded above 1 near
  antipodal points, an intermediate overflow). The handler below therefore does not
  call this exact function: the distance the process computes is a parameter of the
  scan, and a theorem that needs the computed distance to be close to the exact one
  says so.
\<close>

definition atan2 :: "real \<Rightarrow> real \<Rightarrow> real" where
  "atan2 y x =
     (if x > 0 then arctan (y / x)
      else if x < 0 then (if y \<ge> 0 then arctan (y / x) + pi else arctan (y / x) - pi)
      else if y > 0 then pi / 2
      else if y < 0 then - (pi / 2)
      else 0)"

definition haversine_a :: "real \<Rightarrow> real \<Rightarrow> real \<Rightarrow> real \<Rightarrow> real" where
  "haversine_a lat1 lng1 lat2 lng2 =
     (let dLat = (lat2 - lat1) * pi / 180;
          dLng = (lng2 - lng1) * pi / 180
      in sin (dLat / 2) * sin (dLat / 2) +
         cos (lat1 * pi / 180) * cos (lat2 * pi / 180) *
         sin (dLng / 2) * sin (dLng / 2))"

definition getDistance :: "real \<Rightarrow> real \<Rightarrow> real \<Rightarrow> real \<Rightarrow> real option" where
  "getDistance lat1 lng1 lat2 lng2 =
     (let R = 6371;
          a = haversine_a lat1 lng1 lat2 lng2
      in if a < 0 \<or> 1 - a < 0 then None
         else (let c = 2 * atan2 (sqrt a) (sqrt (1 - a)) in Some (R * c)))"

section \<open>Synthetic data\<close>

record district_data =
  totalJobCards :: "int option"
  activeWorkers :: "int option"
  completedWorks :: "int option"
  ongoingWorks :: "int option"
  totalExpenditure :: "int option"
  avgWagePaid :: "int option"
  workDemand :: "int option"
  workProvided :: "int option"
  avgPaymentDays :: "int option"
  womenParticipation :: "int option"

text \<open>
  The closure \<open>random\<close> of \<open>generateDistrictData\<close>, with the seed it captures as its
  first argument. JavaScript's \<open>%\<close> truncates: the remainder has the sign of the
  dividend, which is \<open>smod\<close>; a zero divisor gives NaN.
\<close>

definition random :: "int option \<Rightarrow> int \<Rightarrow> int \<Rightarrow> int option" where
  "random seed mn mx =
     (case seed of
        None \<Rightarrow> None
      | Some s \<Rightarrow>
          if mx - mn = 0 then None
          else Some (\<lfloor>sin (real_of_int (s * 9999)) * 10000\<rfloor> smod (mx - mn) + mn))"

definition generateDistrictData :: "jsstring \<Rightarrow> int \<Rightarrow> int \<Rightarrow> district_data" where
  "generateDistrictData districtCode month year =
     (let seed = map_option (\<lambda>c. c + month + year) (charCodeAt0 districtCode)
      in \<lparr>totalJobCards = random seed 80000 150000,
          activeWorkers = random seed 40000 90000,
          completedWorks = random seed 150 600,
          ongoingWorks = random seed 50 200,
          totalExpenditure = random seed 80 200,
          avgWagePaid = random seed 250 320,
          workDemand = random seed 50000 100000,
          workProvided = random seed 45000 95000,
          avgPaymentDays = random seed 8 18,
          womenParticipation = random seed 45 65\<rparr>)"

text \<open>A record has all ten metrics when none of them is NaN.\<close>

definition allMetricsPresent :: "district_data \<Rightarrow> bool" where
  "allMetricsPresent d =
     (totalJobCards d \<noteq> None \<and> activeWorkers d \<noteq> None \<and> completedWorks d \<noteq> None \<and>
      ongoingWorks d \<noteq> None \<and> totalExpenditure d \<noteq> None \<and> avgWagePaid d \<noteq> None \<and>
      workDemand d \<noteq> None \<and> workProvided d \<noteq> None \<and> avgPaymentDays d \<noteq> None \<and>
      womenParticipation d \<noteq> None)"

section \<open>Storage\<close>

text \<open>
  The two tables, as the rows they hold in insertion order (the serial \<open>id\<close> and
  the defaulted \<open>state\<close> columns are never read and are left out). The pool is
  \<open>None\<close> when a query on it rejects.
\<close>

record perf_row =
  district_code :: jsstring
  month :: int
  year :: int
  data :: district_data
  updated_at :: int

record db =
  districts :: "district list"
  performance :: "perf_row list"

type_synonym pool = "db option"

datatype pg_error = ConnectionError | CheckViolation

text \<open>\<open>INSERT INTO districts ... ON CONFLICT (code) DO NOTHING\<close>\<close>

definition insertDistrict :: "district \<Rightarrow> district list \<Rightarrow> district list" where
  "insertDistrict d rows = (if code d \<in> set (map code rows) then rows else rows @ [d])"

definition perf_key :: "perf_row \<Rightarrow> jsstring \<times> int \<times> int" where
  "perf_key r = (district_code r, month r, year r)"

text \<open>The period of a row, ordered by year and then by month.\<close>

definition period :: "perf_row \<Rightarrow> int \<times> int" where
  "period r = (year r, month r)"

text \<open>
  \<open>INSERT INTO performance ... ON CONFLICT (district_code, month, year) DO NOTHING\<close>,
  under the table's CHECK constraints on month and year.
\<close>

definition insertPerformance :: "perf_row \<Rightarrow> perf_row list \<Rightarrow> pg_error + perf_row list" where
  "insertPerformance r rows =
     (if \<not> (month r \<ge> 0 \<and> month r \<le> 11 \<and> year r \<ge> 2024) then Inl CheckViolation
      else if perf_key r \<in> set (map perf_key rows) then Inr rows
      else Inr (rows @ [r]))"

text \<open>The same insert with \<open>DO UPDATE SET data = $4, updated_at = NOW()\<close>.\<close>

definition upsertPerformance :: "perf_row \<Rightarrow> perf_row list \<Rightarrow> pg_error + perf_row list" where
  "upsertPerformance r rows =
     (if \<not> (month r \<ge> 0 \<and> month r \<le> 11 \<and> year r \<ge> 2024) then Inl CheckViolation
      else if perf_key r \<in> set (map perf_key rows)
      then Inr (map (\<lambda>x. if perf_key x = perf_key r
                           then x\<lparr>data := data r, updated_at := updated_at r\<rparr> else x) rows)
      else Inr (rows @ [r]))"

text \<open>\<open>SELECT name, code, lat, lng FROM districts ORDER BY name\<close>\<close>

definition selectDistrictsByName :: "db \<Rightarrow> district list" where
  "selectDistrictsByName d = sort_key name (districts d)"

text \<open>
  \<open>SELECT ... FROM performance WHERE district_code = $1
  ORDER BY year DESC, month DESC LIMIT n\<close>
\<close>

definition selectPerformance :: "jsstring \<Rightarrow> nat \<Rightarrow> db \<Rightarrow> perf_row list" where
  "selectPerformance districtCode n d =
     take n (sort_key (\<lambda>r. (- year r, - month r))
               (filter (\<lambda>r. district_code r = districtCode) (performance d)))"

section \<open>HTTP API\<close>

record trend =
  trend_month :: jsstring
  trend_year :: int
  workers :: "int option"
  expenditure :: "int option"
  works :: "int option"

datatype payload =
    Districts "district list"
  | Performance district_data
  | Trends "trend list"
  | Nearest "district option"
  | ErrorMessage string

record response =
  status :: nat
  body :: payload

text \<open>
  The cache maps a key to the value stored under it; an entry whose hour has run out
  is an absent one.
\<close>

type_synonym cache = "jsstring \<rightharpoonup> payload"

definition json :: "payload \<Rightarrow> response" where
  "json v = \<lparr>status = 200, body = v\<rparr>"

subsection \<open>GET /api/districts\<close>

definition getDistricts :: "cache \<Rightarrow> pool \<Rightarrow> cache \<times> response" where
  "getDistricts cache pool =
     (case cache (js ''districts'') of
        Some cached \<Rightarrow> (cache, json cached)
      | None \<Rightarrow>
          (case pool of
             None \<Rightarrow> (cache, json (Districts MAHARASHTRA_DISTRICTS))
           | Some d \<Rightarrow>
               (let rows = selectDistrictsByName d;
                    districts = (if length rows > 0 then rows else MAHARASHTRA_DISTRICTS)
                in (cache(js ''districts'' \<mapsto> Districts districts), json (Districts districts)))))"

subsection \<open>POST /api/location-to-district\<close>

text \<open>
  The request body, as its \<open>lat\<close> and \<open>lng\<close>: \<open>None\<close> when the key is absent,
  a number otherwise. \<open>!lat\<close> holds of an absent value and of the number 0.
\<close>

record location_body =
  body_lat :: "real option"
  body_lng :: "real option"

definition falsy :: "real option \<Rightarrow> bool" where
  "falsy v = (v = None \<or> v = Some 0)"

text \<open>
  The scan over the districts, with \<open>(nearestDistrict, minDistance)\<close> as its state;
  \<open>minDistance = None\<close> is \<open>Infinity\<close>. Its first argument
  \<open>computedDistance\<close> is what the call \<open>getDistance(lat, lng, district.lat,
  district.lng)\<close> returns in the process: a number, or NaN (\<open>None\<close>). It is
  never an infinity, being \<open>R * c\<close> with \<open>c\<close> twice a value of \<open>Math.atan2\<close>.
  A comparison with NaN is false, so a district whose distance is NaN is passed over,
  and \<open>nearestDistrict\<close> stays \<open>null\<close> when every distance is NaN.
\<close>

fun nearest :: "(real \<Rightarrow> real \<Rightarrow> real \<Rightarrow> real \<Rightarrow> real option) \<Rightarrow> real \<Rightarrow> real \<Rightarrow> district list
                  \<Rightarrow> district option \<times> real option \<Rightarrow> district option \<times> real option" where
  "nearest computedDistance lat0 lng0 [] acc = acc"
| "nearest computedDistance lat0 lng0 (district # rest) (nearestDistrict, minDistance) =
     (case computedDistance lat0 lng0 (lat district) (lng district) of
        None \<Rightarrow> nearest computedDistance lat0 lng0 rest (nearestDistrict, minDistance)
      | Some distance \<Rightarrow>
          if (case minDistance of None \<Rightarrow> True | Some m \<Rightarrow> distance < m)
          then nearest computedDistance lat0 lng0 rest (Some district, Some distance)
          else nearest computedDistance lat0 lng0 rest (nearestDistrict, minDistance))"

text \<open>
  The part of the handler after the guard. A cached value that is no array of
  districts is never stored under this key; the model still says what the loop does
  with one (an array of other objects gives NaN distances, any other object is not
  iterable).
\<close>

definition locateNearest ::
  "(real \<Rightarrow> real \<Rightarrow> real \<Rightarrow> real \<Rightarrow> real option) \<Rightarrow> cache \<Rightarrow> pool \<Rightarrow> real \<Rightarrow> real
     \<Rightarrow> cache \<times> response" where
  "locateNearest computedDistance cache pool lat0 lng0 =
     (case cache (js ''districts'') of
        Some (Districts ds) \<Rightarrow>
          (cache, json (Nearest (fst (nearest computedDistance lat0 lng0 ds (None, None)))))
      | Some (Trends ts) \<Rightarrow> (cache, json (Nearest None))
      | Some other \<Rightarrow> (cache, \<lparr>status = 500, body = ErrorMessage ''Location lookup failed''\<rparr>)
      | None \<Rightarrow>
          (case pool of
             None \<Rightarrow> (cache, \<lparr>status = 500, body = ErrorMessage ''Location lookup failed''\<rparr>)
           | Some d \<Rightarrow>
               (let rows = districts d;
                    ds = (if length rows > 0 then rows else MAHARASHTRA_DISTRICTS)
                in (cache(js ''districts'' \<mapsto> Districts ds),
                    json (Nearest (fst (nearest computedDistance lat0 lng0 ds (None, None))))))))"

definition postLocationToDistrict ::
  "(real \<Rightarrow> real \<Rightarrow> real \<Rightarrow> real \<Rightarrow> real option) \<Rightarrow> cache \<Rightarrow> pool \<Rightarrow> location_body
     \<Rightarrow> cache \<times> response" where
  "postLocationToDistrict computedDistance cache pool req =
     (if falsy (body_lat req) \<or> falsy (body_lng req)
      then (cache, \<lparr>status = 400, body = ErrorMessage ''Latitude and longitude required''\<rparr>)
      else (case (body_lat req, body_lng req) of
              (Some lat0, Some lng0) \<Rightarrow> locateNearest computedDistance cache pool lat0 lng0
            | _ \<Rightarrow> (cache, \<lparr>status = 400, body = ErrorMessage ''Latitude and longitude required''\<rparr>)))"

subsection \<open>GET /api/performance/:districtCode\<close>

definition getPerformance :: "cache \<Rightarrow> pool \<Rightarrow> date \<Rightarrow> jsstring \<Rightarrow> cache \<times> response" where
  "getPerformance cache pool now districtCode =
     (let cacheKey = js ''perf_'' @ districtCode
      in case cache cacheKey of
           Some cached \<Rightarrow> (cache, json cached)
         | None \<Rightarrow>
             (case pool of
                None \<Rightarrow>
                  (cache, json (Performance
                     (generateDistrictData districtCode (getMonth now) (getFullYear now))))
              | Some d \<Rightarrow>
                  (let d' = (case selectPerformance districtCode 1 d of
                               row # _ \<Rightarrow> data row
                             | [] \<Rightarrow> generateDistrictData districtCode (getMonth now) (getFullYear now))
                   in (cache(cacheKey \<mapsto> Performance d'), json (Performance d')))))"

subsection \<open>GET /api/trends/:districtCode\<close>

definition monthNames :: "jsstring list" where
  "monthNames = map js [''Jan'', ''Feb'', ''Mar'', ''Apr'', ''May'', ''Jun'',
                        ''Jul'', ''Aug'', ''Sep'', ''Oct'', ''Nov'', ''Dec'']"

text \<open>
  \<open>toLocaleString('default', { month: 'short' })\<close> depends on the locale of the
  process: it is the parameter \<open>shortMonth\<close>.
\<close>

definition trendOfRow :: "(date \<Rightarrow> jsstring) \<Rightarrow> perf_row \<Rightarrow> trend" where
  "trendOfRow shortMonth row =
     \<lparr>trend_month = shortMonth (newDate (year row) (month row)),
      trend_year = year row,
      workers = activeWorkers (data row),
      expenditure = totalExpenditure (data row),
      works = completedWorks (data row)\<rparr>"

text \<open>One pass of the fallback loop, for its index \<open>i\<close>.\<close>

definition syntheticTrend :: "date \<Rightarrow> jsstring \<Rightarrow> int \<Rightarrow> trend" where
  "syntheticTrend now districtCode i =
     (let d = newDate (getFullYear now) (getMonth now - i);
          generated = generateDistrictData districtCode (getMonth d) (getFullYear d)
      in \<lparr>trend_month = monthNames ! nat (getMonth d),
          trend_year = getFullYear d,
          workers = activeWorkers generated,
          expenditure = totalExpenditure generated,
          works = completedWorks generated\<rparr>)"

text \<open>The values \<open>i\<close> takes in \<open>for (let i = 6; i >= 0; i--)\<close>, in order.\<close>

definition loopIndices :: "int list" where
  "loopIndices = [6, 5, 4, 3, 2, 1, 0]"

definition getTrends ::
  "(date \<Rightarrow> jsstring) \<Rightarrow> cache \<Rightarrow> pool \<Rightarrow> date \<Rightarrow> jsstring \<Rightarrow> cache \<times> response" where
  "getTrends shortMonth cache pool now districtCode =
     (let cacheKey = js ''trends_'' @ districtCode
      in case cache cacheKey of
           Some cached \<Rightarrow> (cache, json cached)
         | None \<Rightarrow>
             (case pool of
                None \<Rightarrow> (cache, \<lparr>status = 500, body = ErrorMessage ''Failed to fetch trends''\<rparr>)
              | Some d \<Rightarrow>
                  (let rows = selectPerformance districtCode 7 d;
                       trends = (if length rows \<ge> 1
                                 then rev (map (trendOfRow shortMonth) rows)
                                 else map (syntheticTrend now districtCode) loopIndices)
                   in (cache(cacheKey \<mapsto> Trends trends), json (Trends trends)))))"

section \<open>Refresh job and bootstrap\<close>

text \<open>
  Both read the clock once per run here: \<open>now\<close> is the \<open>Date\<close>, \<open>stamp\<close> the
  value of \<open>NOW()\<close>. The refresh job stops at the first failing statement and keeps
  what it wrote.
\<close>

fun refreshJob :: "date \<Rightarrow> int \<Rightarrow> jsstring list \<Rightarrow> perf_row list \<Rightarrow> perf_row list" where
  "refreshJob now stamp [] rows = rows"
| "refreshJob now stamp (c # cs) rows =
     (case upsertPerformance
             \<lparr>district_code = c, month = getMonth now, year = getFullYear now,
              data = generateDistrictData c (getMonth now) (getFullYear now),
              updated_at = stamp\<rparr> rows of
        Inl e \<Rightarrow> rows
      | Inr rows' \<Rightarrow> refreshJob now stamp cs rows')"

text \<open>
  The scheduled callback: it reads the district codes and runs the loop; when the pool
  rejects, the error is logged and nothing changes.
\<close>

definition scheduledFetch :: "date \<Rightarrow> int \<Rightarrow> pool \<Rightarrow> pool" where
  "scheduledFetch now stamp pool =
     (case pool of
        None \<Rightarrow> None
      | Some d \<Rightarrow>
          Some (d\<lparr>performance := refreshJob now stamp (map code (districts d)) (performance d)\<rparr>))"

text \<open>
  The row that one pass of the inner loop of \<open>initDatabase\<close> offers to the table,
  for the district code \<open>c\<close> and the loop index \<open>i\<close>.
\<close>

definition backfillRow :: "date \<Rightarrow> int \<Rightarrow> jsstring \<Rightarrow> int \<Rightarrow> perf_row" where
  "backfillRow now stamp c i =
     (let d = newDate (getFullYear now) (getMonth now - i)
      in \<lparr>district_code = c, month = getMonth d, year = getFullYear d,
          data = generateDistrictData c (getMonth d) (getFullYear d),
          updated_at = stamp\<rparr>)"

text \<open>
  The inner loop for one district, over the loop indices that are left, and the outer
  loop over the district codes.
\<close>

fun backfillDistrict ::
  "date \<Rightarrow> int \<Rightarrow> jsstring \<Rightarrow> int list \<Rightarrow> perf_row list \<Rightarrow> pg_error + perf_row list" where
  "backfillDistrict now stamp c [] rows = Inr rows"
| "backfillDistrict now stamp c (i # is) rows =
     (case insertPerformance (backfillRow now stamp c i) rows of
        Inl e \<Rightarrow> Inl e
      | Inr rows' \<Rightarrow> backfillDistrict now stamp c is rows')"

fun backfill ::
  "date \<Rightarrow> int \<Rightarrow> jsstring list \<Rightarrow> perf_row list \<Rightarrow> pg_error + perf_row list" where
  "backfill now stamp [] rows = Inr rows"
| "backfill now stamp (c # cs) rows =
     (case backfillDistrict now stamp c loopIndices rows of
        Inl e \<Rightarrow> Inl e
      | Inr rows' \<Rightarrow> backfill now stamp cs rows')"

text \<open>
  \<open>initDatabase\<close>: \<open>Inl\<close> is the \<open>catch\<close> branch, which ends the process with
  exit code 1. \<open>CREATE TABLE IF NOT EXISTS\<close> leaves an existing table as it is; a
  missing table is the empty one.
\<close>

definition initDatabase :: "date \<Rightarrow> int \<Rightarrow> pool \<Rightarrow> pg_error + db" where
  "initDatabase now stamp pool =
     (case pool of
        None \<Rightarrow> Inl ConnectionError
      | Some d \<Rightarrow>
          (let ds = fold insertDistrict MAHARASHTRA_DISTRICTS (districts d)
           in case backfill now stamp (map code ds) (performance d) of
                Inl e \<Rightarrow> Inl e
              | Inr rows \<Rightarrow> Inr \<lparr>districts = ds, performance = rows\<rparr>))"

text \<open>
  How a later state of the performance table relates to an earlier one when rows were
  only inserted if absent: the earlier rows stand unchanged at the front, and every
  row added has a key the earlier table did not hold.
\<close>

definition appendsOnlyNew :: "perf_row list \<Rightarrow> perf_row list \<Rightarrow> bool" where
  "appendsOnlyNew rows rows' =
     (\<exists>new. rows' = rows @ new \<and>
            (\<forall>r \<in> set new. perf_key r \<notin> set (map perf_key rows)) \<and>
            (distinct (map perf_key rows) \<longrightarrow> distinct (map perf_key rows')))"

section \<open>The rate limiter's window\<close>

lemma rateLimiter_other:
  "a \<noteq> ip \<Longrightarrow> fst (rateLimiter a t rl) ip = rl ip"
  by (simp add: rateLimiter_def split: option.splits)

lemma upt_Suc_shift: "[0..<Suc n] = 0 # map Suc [0..<n]"
  by (simp add: upt_conv_Cons map_Suc_upt del: upt_Suc)

lemma verdicts_in_window:
  "rl ip = Some w \<Longrightarrow> \<forall>(a, t) \<in> set reqs. a = ip \<longrightarrow> t \<le> resetTime w \<Longrightarrow>
   client_verdicts ip reqs rl =
     map (\<lambda>k. if count w + int k < RATE_LIMIT then Next else TooManyRequests)
       [0..<length (filter (\<lambda>r. fst r = ip) reqs)]"
proof (induction reqs arbitrary: rl w)
  case Nil
  then show ?case by simp
next
  case (Cons r reqs)
  obtain a t where r: "r = (a, t)" by (cases r)
  show ?case
  proof (cases "a = ip")
    case False
    then have "fst (rateLimiter a t rl) ip = Some w"
      using Cons.prems(1) by (simp add: rateLimiter_other)
    then have "client_verdicts ip reqs (fst (rateLimiter a t rl)) =
        map (\<lambda>k. if count w + int k < RATE_LIMIT then Next else TooManyRequests)
          [0..<length (filter (\<lambda>r. fst r = ip) reqs)]"
      using Cons.prems(2) by (intro Cons.IH[of "fst (rateLimiter a t rl)" w]) auto
    then show ?thesis using False
      by (simp add: r)
  next
    case True
    have t: "t \<le> resetTime w" using Cons.prems(2) True by (simp add: r)
    have rest: "\<forall>(a, t) \<in> set reqs. a = ip \<longrightarrow> t \<le> resetTime w"
      using Cons.prems(2) by simp
    show ?thesis
    proof (cases "count w \<ge> RATE_LIMIT")
      case full: True
      have step: "rateLimiter ip t rl = (rl, TooManyRequests)"
        using Cons.prems(1) t full by (simp add: rateLimiter_def)
      have "client_verdicts ip reqs rl =
          map (\<lambda>k. if count w + int k < RATE_LIMIT then Next else TooManyRequests)
            [0..<length (filter (\<lambda>r. fst r = ip) reqs)]"
        by (rule Cons.IH[of rl w, OF Cons.prems(1) rest])
      then show ?thesis using full
        by (simp add: r True step upt_Suc_shift o_def del: upt_Suc)
    next
      case room: False
      let ?w = "w\<lparr>count := count w + 1\<rparr>"
      have step: "rateLimiter ip t rl = (rl(ip \<mapsto> ?w), Next)"
        using Cons.prems(1) t room by (simp add: rateLimiter_def)
      have "client_verdicts ip reqs (rl(ip \<mapsto> ?w)) =
          map (\<lambda>k. if count ?w + int k < RATE_LIMIT then Next else TooManyRequests)
            [0..<length (filter (\<lambda>r. fst r = ip) reqs)]"
        by (rule Cons.IH[of "rl(ip \<mapsto> ?w)" ?w]) (use rest in auto)
      then show ?thesis using room
        by (simp add: r True step upt_Suc_shift o_def add.assoc add.commute del: upt_Suc)
    qed
  qed
qed

lemma rateLimiter_new_window:
  "rl ip = None \<or> (\<exists>w. rl ip = Some w \<and> now > resetTime w) \<Longrightarrow>
   rateLimiter ip now rl = (rl(ip \<mapsto> \<lparr>count = 1, resetTime = now + 60000\<rparr>), Next)"
  by (auto simp: rateLimiter_def)

text \<open>
  C3. The fixed window of the rate limiter: a first request of a client, or one that
  arrives after the stored reset time, starts a window of 60000 ms with count 1 and is
  let through; within the window a request is let through and counted while the count
  is below 100 and answered 429 from then on. So of the requests a client sends in
  one window, whatever other clients send in between, the first 100 are let through
  and the 101st and every later one are denied.
\<close>

theorem rateLimiter_fixed_window:
  "(rl ip = None \<or> (\<exists>w. rl ip = Some w \<and> now > resetTime w) \<longrightarrow>
      rateLimiter ip now rl = (rl(ip \<mapsto> \<lparr>count = 1, resetTime = now + 60000\<rparr>), Next))
   \<and> (rl ip = Some w \<and> now \<le> resetTime w \<and> count w < RATE_LIMIT \<longrightarrow>
      rateLimiter ip now rl = (rl(ip \<mapsto> w\<lparr>count := count w + 1\<rparr>), Next))
   \<and> (rl ip = Some w \<and> now \<le> resetTime w \<and> count w \<ge> RATE_LIMIT \<longrightarrow>
      snd (rateLimiter ip now rl) = TooManyRequests)
   \<and> ((rl ip = None \<or> (\<exists>w. rl ip = Some w \<and> now > resetTime w)) \<and>
       (\<forall>(a, t) \<in> set reqs. a = ip \<longrightarrow> t \<le> now + 60000) \<longrightarrow>
      client_verdicts ip ((ip, now) # reqs) rl =
        map (\<lambda>k. if k < 100 then Next else TooManyRequests)
          [0..<Suc (length (filter (\<lambda>r. fst r = ip) reqs))])"
proof (intro conjI impI)
  assume "rl ip = None \<or> (\<exists>w. rl ip = Some w \<and> now > resetTime w)"
  then show "rateLimiter ip now rl = (rl(ip \<mapsto> \<lparr>count = 1, resetTime = now + 60000\<rparr>), Next)"
    by (rule rateLimiter_new_window)
next
  assume "rl ip = Some w \<and> now \<le> resetTime w \<and> count w < RATE_LIMIT"
  then show "rateLimiter ip now rl = (rl(ip \<mapsto> w\<lparr>count := count w + 1\<rparr>), Next)"
    by (simp add: rateLimiter_def)
next
  assume "rl ip = Some w \<and> now \<le> resetTime w \<and> count w \<ge> RATE_LIMIT"
  then show "snd (rateLimiter ip now rl) = TooManyRequests"
    by (simp add: rateLimiter_def)
next
  assume a: "(rl ip = None \<or> (\<exists>w. rl ip = Some w \<and> now > resetTime w)) \<and>
       (\<forall>(a, t) \<in> set reqs. a = ip \<longrightarrow> t \<le> now + 60000)"
  let ?w = "\<lparr>count = 1, resetTime = now + 60000\<rparr>"
  have step: "rateLimiter ip now rl = (rl(ip \<mapsto> ?w), Next)"
    using a by (intro rateLimiter_new_window) simp
  have "client_verdicts ip reqs (rl(ip \<mapsto> ?w)) =
      map (\<lambda>k. if count ?w + int k < RATE_LIMIT then Next else TooManyRequests)
        [0..<length (filter (\<lambda>r. fst r = ip) reqs)]"
    by (rule verdicts_in_window[of "rl(ip \<mapsto> ?w)" ip ?w]) (use a in auto)
  then show "client_verdicts ip ((ip, now) # reqs) rl =
        map (\<lambda>k. if k < 100 then Next else TooManyRequests)
          [0..<Suc (length (filter (\<lambda>r. fst r = ip) reqs))]"
    by (simp add: step upt_Suc_shift o_def RATE_LIMIT_def del: upt_Suc) 
qed

lemma verdicts_101: "map (\<lambda>k. if k < 100 then Next else TooManyRequests) [0..<101]
    = replicate 100 Next @ [TooManyRequests]"
  by code_simp

theorem rateLimiter_fixed_window_witness:
  "rateLimiter (js ''10.0.0.1'') 0 Map.empty
     = (Map.empty(js ''10.0.0.1'' \<mapsto> \<lparr>count = 1, resetTime = 60000\<rparr>), Next)
   \<and> client_verdicts (js ''10.0.0.1'')
       ((js ''10.0.0.1'', 0) # (js ''10.0.0.2'', 500) # replicate 100 (js ''10.0.0.1'', 60000))
       Map.empty
     = replicate 100 Next @ [TooManyRequests]"
proof -
  have ne: "js ''10.0.0.2'' \<noteq> js ''10.0.0.1''"
    by (simp add: js_def)
  show ?thesis
    using rateLimiter_fixed_window[of Map.empty "js ''10.0.0.1''" 0 undefined
        "(js ''10.0.0.2'', 500) # replicate 100 (js ''10.0.0.1'', 60000)"]
    by (simp add: ne verdicts_101 del: client_verdicts.simps upt_Suc)
qed

lemma rateLimiter_count_bounds:
  assumes "\<And>c w. rl c = Some w \<Longrightarrow> 1 \<le> count w \<and> count w \<le> RATE_LIMIT"
    and "fst (rateLimiter ip now rl) c = Some w"
  shows "1 \<le> count w \<and> count w \<le> RATE_LIMIT"
proof (cases "c = ip")
  case False
  then have "rl c = Some w"
    using assms(2) by (simp add: rateLimiter_def split: option.splits if_splits)
  then show ?thesis by (rule assms(1))
next
  case True
  show ?thesis
  proof (cases "rl ip")
    case None
    then show ?thesis
      using assms(2) True by (auto simp: rateLimiter_def RATE_LIMIT_def)
  next
    case (Some v)
    have "1 \<le> count v \<and> count v \<le> RATE_LIMIT"
      using Some by (rule assms(1))
    then show ?thesis
      using assms(2) True Some
      by (auto simp: rateLimiter_def RATE_LIMIT_def split: if_splits)
  qed
qed

lemma serve_count_bounds:
  "(\<And>c w. rl c = Some w \<Longrightarrow> 1 \<le> count w \<and> count w \<le> RATE_LIMIT) \<Longrightarrow>
   serve reqs rl c = Some w \<Longrightarrow> 1 \<le> count w \<and> count w \<le> RATE_LIMIT"
proof (induction reqs arbitrary: rl)
  case Nil
  then show ?case by simp
next
  case (Cons r reqs)
  obtain a t where r: "r = (a, t)" by (cases r)
  have "serve reqs (fst (rateLimiter a t rl)) c = Some w"
    using Cons.prems(2) by (simp add: r)
  moreover have "\<And>c w. fst (rateLimiter a t rl) c = Some w \<Longrightarrow> 1 \<le> count w \<and> count w \<le> RATE_LIMIT"
    using rateLimiter_count_bounds[of rl a t] Cons.prems(1) by blast
  ultimately show ?case
    using Cons.IH[of "fst (rateLimiter a t rl)"] by blast
qed

text \<open>
  C10. A denied request leaves the whole table as it was: the count and the reset time
  of the client and every other client's entry. From the empty table, no stored count
  ever leaves the range 1..100.
\<close>

theorem denied_request_frame:
  "(snd (rateLimiter ip now rl) = TooManyRequests \<longrightarrow> fst (rateLimiter ip now rl) = rl)
   \<and> (rl ip = Some w \<and> now \<le> resetTime w \<and> count w \<ge> RATE_LIMIT \<longrightarrow>
        rateLimiter ip now rl = (rl, TooManyRequests))
   \<and> (serve reqs Map.empty c = Some w' \<longrightarrow> 1 \<le> count w' \<and> count w' \<le> RATE_LIMIT)"
proof (intro conjI impI)
  assume "snd (rateLimiter ip now rl) = TooManyRequests"
  then show "fst (rateLimiter ip now rl) = rl"
    by (cases "rl ip") (simp_all add: rateLimiter_def split: if_splits)
next
  assume "rl ip = Some w \<and> now \<le> resetTime w \<and> count w \<ge> RATE_LIMIT"
  then show "rateLimiter ip now rl = (rl, TooManyRequests)"
    by (simp add: rateLimiter_def)
next
  assume "serve reqs Map.empty c = Some w'"
  then show "1 \<le> count w'" "count w' \<le> RATE_LIMIT"
    using serve_count_bounds[of Map.empty reqs c w'] by simp_all
qed

theorem denied_request_frame_witness:
  "rateLimiter (js ''10.0.0.1'') 500 [js ''10.0.0.1'' \<mapsto> \<lparr>count = 100, resetTime = 1000\<rparr>]
     = ([js ''10.0.0.1'' \<mapsto> \<lparr>count = 100, resetTime = 1000\<rparr>], TooManyRequests)
   \<and> serve [(js ''10.0.0.1'', 0), (js ''10.0.0.1'', 1)] Map.empty (js ''10.0.0.1'')
     = Some \<lparr>count = 2, resetTime = 60000\<rparr>
   \<and> count \<lparr>count = 2, resetTime = 60000\<rparr> \<le> RATE_LIMIT"
proof -
  have run: "serve [(js ''10.0.0.1'', 0), (js ''10.0.0.1'', 1)] Map.empty (js ''10.0.0.1'')
     = Some \<lparr>count = 2, resetTime = 60000\<rparr>"
    by (simp add: rateLimiter_def RATE_LIMIT_def)
  show ?thesis
    using denied_request_frame[of "js ''10.0.0.1''" 500
        "[js ''10.0.0.1'' \<mapsto> \<lparr>count = 100, resetTime = 1000\<rparr>]"
        "\<lparr>count = 100, resetTime = 1000\<rparr>"
        "[(js ''10.0.0.1'', 0), (js ''10.0.0.1'', 1)]" "js ''10.0.0.1''"
        "\<lparr>count = 2, resetTime = 60000\<rparr>"] run
    by (simp add: RATE_LIMIT_def)
qed

section \<open>The synthetic metrics\<close>

lemma random_Some:
  "mx - mn \<noteq> 0 \<Longrightarrow>
   random (Some s) mn mx = Some (\<lfloor>sin (real_of_int (s * 9999)) * 10000\<rfloor> smod (mx - mn) + mn)"
  by (simp add: random_def)

text \<open>
  C9. The ten metrics of one record are all computed from the one value
  \<open>floor(sin(seed * 9999) * 10000)\<close>. So whenever the district code has a first
  character, \<open>workProvided\<close> is \<open>workDemand - 5000\<close> and \<open>activeWorkers\<close> is
  \<open>workDemand - 10000\<close>; and two draws over ranges of equal width differ by the
  difference of the ranges' minimums.
\<close>

theorem metrics_share_one_draw:
  "(charCodeAt0 districtCode = Some c \<longrightarrow>
      (let v = \<lfloor>sin (real_of_int ((c + m + y) * 9999)) * 10000\<rfloor>;
           d = generateDistrictData districtCode m y
       in totalJobCards d = Some (v smod 70000 + 80000)
        \<and> activeWorkers d = Some (v smod 50000 + 40000)
        \<and> completedWorks d = Some (v smod 450 + 150)
        \<and> ongoingWorks d = Some (v smod 150 + 50)
        \<and> totalExpenditure d = Some (v smod 120 + 80)
        \<and> avgWagePaid d = Some (v smod 70 + 250)
        \<and> workDemand d = Some (v smod 50000 + 50000)
        \<and> workProvided d = Some (v smod 50000 + 45000)
        \<and> avgPaymentDays d = Some (v smod 10 + 8)
        \<and> womenParticipation d = Some (v smod 20 + 45)
        \<and> (\<exists>w. workDemand d = Some w \<and> workProvided d = Some (w - 5000)
                \<and> activeWorkers d = Some (w - 10000))))
   \<and> (mxa - mna = mxb - mnb \<and> random seed mna mxa = Some a \<and> random seed mnb mxb = Some b
        \<longrightarrow> a - b = mna - mnb)"
proof (intro conjI impI)
  assume c: "charCodeAt0 districtCode = Some c"
  show "let v = \<lfloor>sin (real_of_int ((c + m + y) * 9999)) * 10000\<rfloor>;
           d = generateDistrictData districtCode m y
       in totalJobCards d = Some (v smod 70000 + 80000)
        \<and> activeWorkers d = Some (v smod 50000 + 40000)
        \<and> completedWorks d = Some (v smod 450 + 150)
        \<and> ongoingWorks d = Some (v smod 150 + 50)
        \<and> totalExpenditure d = Some (v smod 120 + 80)
        \<and> avgWagePaid d = Some (v smod 70 + 250)
        \<and> workDemand d = Some (v smod 50000 + 50000)
        \<and> workProvided d = Some (v smod 50000 + 45000)
        \<and> avgPaymentDays d = Some (v smod 10 + 8)
        \<and> womenParticipation d = Some (v smod 20 + 45)
        \<and> (\<exists>w. workDemand d = Some w \<and> workProvided d = Some (w - 5000)
                \<and> activeWorkers d = Some (w - 10000))"
    by (simp add: generateDistrictData_def c random_Some Let_def)
next
  assume h: "mxa - mna = mxb - mnb \<and> random seed mna mxa = Some a \<and> random seed mnb mxb = Some b"
  then show "a - b = mna - mnb"
    by (cases seed) (auto simp: random_def split: if_splits)
qed

theorem metrics_share_one_draw_witness:
  "charCodeAt0 (js ''KOL'') = Some 75
   \<and> (\<exists>w. workDemand (generateDistrictData (js ''KOL'') 10 2026) = Some w
          \<and> workProvided (generateDistrictData (js ''KOL'') 10 2026) = Some (w - 5000)
          \<and> activeWorkers (generateDistrictData (js ''KOL'') 10 2026) = Some (w - 10000))
   \<and> (\<exists>a b. random (Some 2111) 45000 95000 = Some a
          \<and> random (Some 2111) 50000 100000 = Some b \<and> a - b = - 5000)"
proof -
  have c: "charCodeAt0 (js ''KOL'') = Some 75"
    by (simp add: charCodeAt0_def js_def)
  obtain a where a: "random (Some 2111) 45000 95000 = Some a"
    by (simp add: random_def)
  obtain b where b: "random (Some 2111) 50000 100000 = Some b"
    by (simp add: random_def)
  have "a - b = 45000 - 50000"
    by (rule metrics_share_one_draw[THEN conjunct2, rule_format, of 95000 45000 100000 50000
          "Some 2111" a b]) (simp add: a b)
  then have ab: "\<exists>a b. random (Some 2111) 45000 95000 = Some a
          \<and> random (Some 2111) 50000 100000 = Some b \<and> a - b = - 5000"
    using a b by simp
  have "\<exists>w. workDemand (generateDistrictData (js ''KOL'') 10 2026) = Some w
          \<and> workProvided (generateDistrictData (js ''KOL'') 10 2026) = Some (w - 5000)
          \<and> activeWorkers (generateDistrictData (js ''KOL'') 10 2026) = Some (w - 10000)"
    using metrics_share_one_draw[THEN conjunct1, rule_format, of "js ''KOL''" 75 10 2026, OF c]
    unfolding Let_def by blast
  then show ?thesis
    using ab c by blast
qed

section \<open>The district list and the location guard\<close>

text \<open>
  C5. With no \<open>districts\<close> entry in the cache, when the query fails or returns no
  row, GET /api/districts answers 200 with the static list of the 15 districts, in the
  order of its definition.
\<close>

theorem districts_static_fallback:
  "cache (js ''districts'') = None \<and>
   (pool = None \<or> (\<exists>d. pool = Some d \<and> length (selectDistrictsByName d) = 0)) \<longrightarrow>
     snd (getDistricts cache pool) = \<lparr>status = 200, body = Districts MAHARASHTRA_DISTRICTS\<rparr>
     \<and> length MAHARASHTRA_DISTRICTS = 15"
proof -
  have "length MAHARASHTRA_DISTRICTS = 15"
    by (simp add: MAHARASHTRA_DISTRICTS_def)
  then show ?thesis
    by (auto simp: getDistricts_def json_def Let_def)
qed

theorem districts_static_fallback_witness:
  "snd (getDistricts Map.empty None) = \<lparr>status = 200, body = Districts MAHARASHTRA_DISTRICTS\<rparr>
   \<and> snd (getDistricts Map.empty (Some \<lparr>districts = [], performance = []\<rparr>))
       = \<lparr>status = 200, body = Districts MAHARASHTRA_DISTRICTS\<rparr>
   \<and> map code MAHARASHTRA_DISTRICTS = map js [''KOL'', ''MUM'', ''PUN'', ''NAG'', ''NAS'', ''AUR'',
        ''SOL'', ''THA'', ''AHM'', ''SAT'', ''SAN'', ''JAL'', ''AMR'', ''RAI'', ''RAT'']"
proof -
  have e: "length (selectDistrictsByName \<lparr>districts = [], performance = []\<rparr>) = 0"
    by (simp add: selectDistrictsByName_def)
  have m: "map code MAHARASHTRA_DISTRICTS = map js [''KOL'', ''MUM'', ''PUN'', ''NAG'', ''NAS'', ''AUR'',
        ''SOL'', ''THA'', ''AHM'', ''SAT'', ''SAN'', ''JAL'', ''AMR'', ''RAI'', ''RAT'']"
    by (simp add: MAHARASHTRA_DISTRICTS_def)
  show ?thesis
    using districts_static_fallback[of Map.empty None]
      districts_static_fallback[of Map.empty "Some \<lparr>districts = [], performance = []\<rparr>"] e m
    by simp
qed

text \<open>
  POST /api/location-to-district answers 400 exactly when \<open>!lat || !lng\<close> holds:
  when a coordinate is absent or is the number 0.
\<close>

lemma location_400_iff:
  "status (snd (postLocationToDistrict computedDistance cache pool req)) = 400
     \<longleftrightarrow> falsy (body_lat req) \<or> falsy (body_lng req)"
proof (cases "falsy (body_lat req) \<or> falsy (body_lng req)")
  case True
  then show ?thesis by (simp add: postLocationToDistrict_def)
next
  case False
  then obtain a b where ab: "body_lat req = Some a" "body_lng req = Some b"
    by (auto simp: falsy_def)
  have "status (snd (locateNearest computedDistance cache pool a b)) \<noteq> 400"
    by (simp add: locateNearest_def json_def Let_def split: option.splits payload.splits)
  then show ?thesis using False ab
    by (simp add: postLocationToDistrict_def)
qed

text \<open>
  C2. A body with both coordinates present, one of them 0, is answered 400: the
  latitude 0 counts as missing.
\<close>

theorem zero_latitude_rejected:
  "postLocationToDistrict computedDistance cache pool \<lparr>body_lat = Some 0, body_lng = Some 73.85\<rparr>
     = (cache, \<lparr>status = 400, body = ErrorMessage ''Latitude and longitude required''\<rparr>)"
  by (simp add: postLocationToDistrict_def falsy_def)

section \<open>Bounds on \<open>pi\<close> and on the sine\<close>

text \<open>
  Partial sums of the alternating series of the arc tangent and of the sine enclose
  their limits; Machin's formula turns the first into an enclosure of \<open>pi\<close>.
\<close>

lemma arctan_term_decreasing:
  fixes x :: real
  assumes "0 \<le> x" "x \<le> 1"
  shows "1 / real (Suc n * 2 + 1) * x ^ (Suc n * 2 + 1) \<le> 1 / real (n * 2 + 1) * x ^ (n * 2 + 1)"
proof -
  have p: "x ^ (Suc n * 2 + 1) \<le> x ^ (n * 2 + 1)"
    using assms by (intro power_decreasing) auto
  have q: "1 / real (Suc n * 2 + 1) \<le> 1 / real (n * 2 + 1)"
    by (intro divide_left_mono) auto
  have "1 / real (Suc n * 2 + 1) * x ^ (Suc n * 2 + 1) \<le> 1 / real (n * 2 + 1) * x ^ (Suc n * 2 + 1)"
    using q assms by (intro mult_right_mono) auto
  also have "\<dots> \<le> 1 / real (n * 2 + 1) * x ^ (n * 2 + 1)"
    using p by (intro mult_left_mono) auto
  finally show ?thesis .
qed

lemma arctan_partial_sums:
  fixes x :: real
  assumes "0 \<le> x" "x \<le> 1"
  shows "(\<Sum>i<2 * n. (- 1) ^ i * (1 / real (i * 2 + 1) * x ^ (i * 2 + 1))) \<le> arctan x"
    and "arctan x \<le> (\<Sum>i<2 * n + 1. (- 1) ^ i * (1 / real (i * 2 + 1) * x ^ (i * 2 + 1)))"
proof -
  let ?a = "\<lambda>i. 1 / real (i * 2 + 1) * x ^ (i * 2 + 1)"
  have z: "?a \<longlonglongrightarrow> 0"
    using assms by (intro zeroseq_arctan_series) auto
  have nn: "\<And>i. 0 \<le> ?a i"
    using assms by simp
  have dec: "\<And>i. ?a (Suc i) \<le> ?a i"
    using assms by (rule arctan_term_decreasing)
  have s: "arctan x = (\<Sum>i. (- 1) ^ i * ?a i)"
    using assms by (intro arctan_series) auto
  show "(\<Sum>i<2 * n. (- 1) ^ i * ?a i) \<le> arctan x"
    unfolding s by (rule summable_Leibniz'(2)[where a = ?a, OF z nn dec])
  show "arctan x \<le> (\<Sum>i<2 * n + 1. (- 1) ^ i * ?a i)"
    unfolding s by (rule summable_Leibniz'(4)[where a = ?a, OF z nn dec])
qed

lemma arctan_fifth_lower: "(1973955598498806 / 10 ^ 16 :: real) < arctan (1 / 5)"
proof -
  have "(1973955598498806 / 10 ^ 16 :: real)
      < (\<Sum>i<2 * 5. (- 1) ^ i * (1 / real (i * 2 + 1) * (1 / 5) ^ (i * 2 + 1)))"
    by (simp add: numeral_eq_Suc)
  also have "\<dots> \<le> arctan (1 / 5)"
    by (rule arctan_partial_sums(1)) simp_all
  finally show ?thesis .
qed

lemma arctan_fifth_upper: "arctan (1 / 5) < (1973955598498808 / 10 ^ 16 :: real)"
proof -
  have "arctan (1 / 5) \<le> (\<Sum>i<2 * 5 + 1. (- 1) ^ i * (1 / real (i * 2 + 1) * (1 / 5) ^ (i * 2 + 1)))"
    by (rule arctan_partial_sums(2)) simp_all
  also have "\<dots> < (1973955598498808 / 10 ^ 16 :: real)"
    by (simp add: numeral_eq_Suc)
  finally show ?thesis .
qed

lemma arctan_239_lower: "(4184076002074723 / 10 ^ 18 :: real) < arctan (1 / 239)"
proof -
  have "(4184076002074723 / 10 ^ 18 :: real)
      < (\<Sum>i<2 * 2. (- 1) ^ i * (1 / real (i * 2 + 1) * (1 / 239) ^ (i * 2 + 1)))"
    by (simp add: numeral_eq_Suc)
  also have "\<dots> \<le> arctan (1 / 239)"
    by (rule arctan_partial_sums(1)) simp_all
  finally show ?thesis .
qed

lemma arctan_239_upper: "arctan (1 / 239) < (4184076002074728 / 10 ^ 18 :: real)"
proof -
  have "arctan (1 / 239) \<le> (\<Sum>i<2 * 1 + 1. (- 1) ^ i * (1 / real (i * 2 + 1) * (1 / 239) ^ (i * 2 + 1)))"
    by (rule arctan_partial_sums(2)) simp_all
  also have "\<dots> < (4184076002074728 / 10 ^ 18 :: real)"
    by (simp add: numeral_eq_Suc)
  finally show ?thesis .
qed

lemma pi_bounds: "(314159265358979 / 10 ^ 14 :: real) < pi" "pi < (31415926535898 / 10 ^ 13 :: real)"
proof -
  have m: "pi = 16 * arctan (1 / 5) - 4 * arctan (1 / 239)"
    using machin by simp
  show "(314159265358979 / 10 ^ 14 :: real) < pi"
    using arctan_fifth_lower arctan_239_upper unfolding m by simp
  show "pi < (31415926535898 / 10 ^ 13 :: real)"
    using arctan_fifth_upper arctan_239_lower unfolding m by simp
qed

lemma sin_shift_nat: "sin (x + real n * (2 * pi)) = sin x"
proof (induction n)
  case 0
  then show ?case by simp
next
  case (Suc n)
  have "sin (x + real (Suc n) * (2 * pi)) = sin ((x + real n * (2 * pi)) + 2 * pi)"
    by (simp add: algebra_simps)
  also have "\<dots> = sin (x + real n * (2 * pi))"
    by (rule sin_periodic)
  finally show ?case using Suc by simp
qed

lemma sin_reduce: "sin x = sin (x - real n * (2 * pi))"
  using sin_shift_nat[of "x - real n * (2 * pi)" n] by simp

lemma sin_term_decreasing:
  fixes x :: real
  assumes "0 \<le> x" "x \<le> 1"
  shows "x ^ (2 * Suc n + 1) / fact (2 * Suc n + 1) \<le> x ^ (2 * n + 1) / fact (2 * n + 1)"
proof -
  have p: "x ^ (2 * Suc n + 1) \<le> x ^ (2 * n + 1)"
    using assms by (intro power_decreasing) auto
  have f: "(fact (2 * n + 1) :: real) \<le> fact (2 * Suc n + 1)"
    by (intro fact_mono) simp
  show ?thesis
    using p f assms by (intro frac_le) auto
qed

lemma sin_partial_sums:
  fixes x :: real
  assumes "0 \<le> x" "x \<le> 1"
  shows "(\<Sum>i<2 * n. (- 1) ^ i * (x ^ (2 * i + 1) / fact (2 * i + 1))) \<le> sin x"
    and "sin x \<le> (\<Sum>i<2 * n + 1. (- 1) ^ i * (x ^ (2 * i + 1) / fact (2 * i + 1)))"
proof -
  let ?a = "\<lambda>i. x ^ (2 * i + 1) / fact (2 * i + 1)"
  have sm: "(\<lambda>i. (- 1) ^ i * ?a i) sums sin x"
    using sin_paired[of x] by (simp add: field_simps)
  then have "(\<lambda>i. (- 1) ^ i * ?a i) \<longlonglongrightarrow> 0"
    by (intro summable_LIMSEQ_zero) (rule sums_summable)
  then have "(\<lambda>i. \<bar>(- 1) ^ i * ?a i\<bar>) \<longlonglongrightarrow> 0"
    by (simp only: tendsto_rabs_zero_iff)
  then have z: "?a \<longlonglongrightarrow> 0"
    using assms by (simp add: abs_mult power_abs)
  have nn: "\<And>i. 0 \<le> ?a i"
    using assms by simp
  have dec: "\<And>i. ?a (Suc i) \<le> ?a i"
    using assms by (rule sin_term_decreasing)
  have s: "sin x = (\<Sum>i. (- 1) ^ i * ?a i)"
    using sm by (rule sums_unique)
  show "(\<Sum>i<2 * n. (- 1) ^ i * ?a i) \<le> sin x"
    unfolding s by (rule summable_Leibniz'(2)[where a = ?a, OF z nn dec])
  show "sin x \<le> (\<Sum>i<2 * n + 1. (- 1) ^ i * ?a i)"
    unfolding s by (rule summable_Leibniz'(4)[where a = ?a, OF z nn dec])
qed

lemma sin_21107889: "\<lfloor>sin (21107889 :: real) * 10000\<rfloor> = - 7178"
proof -
  define y where "y = 6718850 * pi - 21107889"
  have yl: "8005717 / 10 ^ 7 \<le> y" and yu: "y \<le> 8005719 / 10 ^ 7"
    using pi_bounds by (simp_all add: y_def)
  have "sin (21107889 :: real) = sin (21107889 - real 3359425 * (2 * pi))"
    by (rule sin_reduce)
  also have "21107889 - real 3359425 * (2 * pi) = - y"
    by (simp add: y_def)
  finally have red: "sin (21107889 :: real) = - sin y"
    by simp
  have half: "8005719 / 10 ^ 7 \<le> pi / 2"
    using pi_bounds(1) by simp
  have "(7177 / 10 ^ 4 :: real)
      < (\<Sum>i<2 * 2. (- 1) ^ i * ((8005717 / 10 ^ 7) ^ (2 * i + 1) / fact (2 * i + 1)))"
    by (simp add: numeral_eq_Suc)
  also have "\<dots> \<le> sin (8005717 / 10 ^ 7)"
    by (rule sin_partial_sums(1)) simp_all
  also have "\<dots> \<le> sin y"
    using yl yu half by (intro sin_monotone_2pi_le) simp_all
  finally have lo: "7177 / 10 ^ 4 < sin y" .
  have "sin y \<le> sin (8005719 / 10 ^ 7)"
    using yl yu half by (intro sin_monotone_2pi_le) simp_all
  also have "\<dots> \<le> (\<Sum>i<2 * 2 + 1. (- 1) ^ i * ((8005719 / 10 ^ 7) ^ (2 * i + 1) / fact (2 * i + 1)))"
    by (rule sin_partial_sums(2)) simp_all
  also have "\<dots> < (7178 / 10 ^ 4 :: real)"
    by (simp add: numeral_eq_Suc)
  finally have hi: "sin y < 7178 / 10 ^ 4" .
  show ?thesis
    unfolding red using lo hi by (intro floor_unique) simp_all
qed

lemma sin_21097890: "0 < sin (21097890 :: real)"
proof -
  define y where "y = 21097890 - 6715666 * pi"
  have yl: "0 < y" and yu: "y < pi"
    using pi_bounds by (simp_all add: y_def)
  have "sin (21097890 :: real) = sin (21097890 - real 3357833 * (2 * pi))"
    by (rule sin_reduce)
  also have "21097890 - real 3357833 * (2 * pi) = y"
    by (simp add: y_def)
  finally show ?thesis
    using sin_gt_zero[OF yl yu] by simp
qed

section \<open>Generated records at concrete inputs\<close>

lemma charCodeAt0_K: "charCodeAt0 (js (CHR ''K'' # s)) = Some 75"
  by (simp add: charCodeAt0_def js_def)

text \<open>
  C1. The record generated for the district code KOL, month index 10 and year 2026:
  the seed is 75 + 10 + 2026 = 2111, the sine of 2111 * 9999 is negative, the shared
  value is -7178, and the truncating remainder keeps its sign. None of the ten
  metrics lies in its range.
\<close>

theorem generateDistrictData_out_of_range:
  "generateDistrictData (js ''KOL'') 10 2026 =
     \<lparr>totalJobCards = Some 72822, activeWorkers = Some 32822, completedWorks = Some (- 278),
      ongoingWorks = Some (- 78), totalExpenditure = Some (- 18), avgWagePaid = Some 212,
      workDemand = Some 42822, workProvided = Some 37822, avgPaymentDays = Some 0,
      womenParticipation = Some 27\<rparr>"
  by (simp add: generateDistrictData_def charCodeAt0_K random_def sin_21107889
      signed_modulo_int_def)

text \<open>
  What holds of every draw: it lies strictly between \<open>2 * min - max\<close> and
  \<open>max\<close>, and within \<open>[min, max)\<close> when the sine is not negative.
\<close>

lemma random_range:
  assumes "mn < mx" "random seed mn mx = Some r"
  shows "2 * mn - mx < r \<and> r < mx"
proof -
  obtain s where s: "seed = Some s"
    using assms(2) by (cases seed) (simp_all add: random_def)
  define v where "v = \<lfloor>sin (real_of_int (s * 9999)) * 10000\<rfloor>"
  have r: "r = v smod (mx - mn) + mn"
    using assms by (simp add: random_def s v_def)
  have "\<bar>v smod (mx - mn)\<bar> < mx - mn"
    using assms(1) by (simp add: signed_modulo_int_def abs_mult abs_sgn_eq)
  then show ?thesis unfolding r by linarith
qed

lemma random_range_nonneg:
  assumes "mn < mx" "random (Some s) mn mx = Some r" "0 \<le> sin (real_of_int (s * 9999))"
  shows "mn \<le> r \<and> r < mx"
proof -
  define v where "v = \<lfloor>sin (real_of_int (s * 9999)) * 10000\<rfloor>"
  have v: "0 \<le> v" using assms(3) by (simp add: v_def)
  have r: "r = v smod (mx - mn) + mn"
    using assms by (simp add: random_def v_def)
  have "v smod (mx - mn) = v mod (mx - mn)"
    using v assms(1) by (simp add: signed_modulo_int_def sgn_if)
  moreover have "0 \<le> v mod (mx - mn)" "v mod (mx - mn) < mx - mn"
    using assms(1) by simp_all
  ultimately show ?thesis unfolding r by linarith
qed

section \<open>GET /api/performance\<close>

lemma selectPerformance_none:
  "filter (\<lambda>r. district_code r = districtCode) (performance d) = [] \<Longrightarrow>
   selectPerformance districtCode n d = []"
  by (simp add: selectPerformance_def)

lemma allMetricsPresent_generate:
  "districtCode \<noteq> [] \<Longrightarrow> allMetricsPresent (generateDistrictData districtCode m y)"
  by (cases districtCode)
    (simp_all add: allMetricsPresent_def generateDistrictData_def charCodeAt0_def random_def)

lemma getPerformance_status: "status (snd (getPerformance cache pool now districtCode)) = 200"
  by (simp add: getPerformance_def json_def Let_def split: option.splits list.splits)

text \<open>
  C6, amended. On a cache miss, for a district code with no stored row and likewise
  when the query fails, GET /api/performance/:districtCode answers 200 with the record
  generated for that code and the current month and year; the record of a non-empty
  code has all ten metrics. On a cache hit the answer is the cached value. The status is
  200 in every case.
\<close>

theorem performance_synthetic_fallback:
  "(cache (js ''perf_'' @ districtCode) = None \<and>
    (pool = None \<or>
     (\<exists>d. pool = Some d \<and> filter (\<lambda>r. district_code r = districtCode) (performance d) = []))
    \<longrightarrow> snd (getPerformance cache pool now districtCode) =
          \<lparr>status = 200,
           body = Performance
             (generateDistrictData districtCode (getMonth now) (getFullYear now))\<rparr>)
   \<and> (districtCode \<noteq> [] \<longrightarrow> allMetricsPresent (generateDistrictData districtCode m y))
   \<and> status (snd (getPerformance cache pool now districtCode)) = 200
   \<and> (cache (js ''perf_'' @ districtCode) = Some cached \<longrightarrow>
        snd (getPerformance cache pool now districtCode) = \<lparr>status = 200, body = cached\<rparr>)"
proof (intro conjI impI)
  assume h: "cache (js ''perf_'' @ districtCode) = None \<and>
    (pool = None \<or>
     (\<exists>d. pool = Some d \<and> filter (\<lambda>r. district_code r = districtCode) (performance d) = []))"
  show "snd (getPerformance cache pool now districtCode) =
          \<lparr>status = 200,
           body = Performance
             (generateDistrictData districtCode (getMonth now) (getFullYear now))\<rparr>"
  proof (cases pool)
    case None
    then show ?thesis using h by (simp add: getPerformance_def json_def)
  next
    case (Some d)
    then have "selectPerformance districtCode 1 d = []"
      using h by (intro selectPerformance_none) simp
    then show ?thesis using h Some by (simp add: getPerformance_def json_def Let_def)
  qed
next
  assume "districtCode \<noteq> []"
  then show "allMetricsPresent (generateDistrictData districtCode m y)"
    by (rule allMetricsPresent_generate)
next
  show "status (snd (getPerformance cache pool now districtCode)) = 200"
    by (rule getPerformance_status)
next
  assume "cache (js ''perf_'' @ districtCode) = Some cached"
  then show "snd (getPerformance cache pool now districtCode) = \<lparr>status = 200, body = cached\<rparr>"
    by (simp add: getPerformance_def json_def)
qed

theorem performance_synthetic_fallback_witness:
  "snd (getPerformance Map.empty None \<lparr>getFullYear = 2026, getMonth = 10\<rparr> (js ''UNKNOWNCODE''))
     = \<lparr>status = 200, body = Performance (generateDistrictData (js ''UNKNOWNCODE'') 10 2026)\<rparr>
   \<and> snd (getPerformance Map.empty (Some \<lparr>districts = [], performance = []\<rparr>)
         \<lparr>getFullYear = 2026, getMonth = 10\<rparr> (js ''UNKNOWNCODE''))
     = \<lparr>status = 200, body = Performance (generateDistrictData (js ''UNKNOWNCODE'') 10 2026)\<rparr>
   \<and> allMetricsPresent (generateDistrictData (js ''UNKNOWNCODE'') 10 2026)
   \<and> snd (getPerformance [js ''perf_'' @ js ''UNKNOWNCODE'' \<mapsto> Performance (generateDistrictData (js ''UNKNOWNCODE'') 9 2026)] None
         \<lparr>getFullYear = 2026, getMonth = 10\<rparr> (js ''UNKNOWNCODE''))
     = \<lparr>status = 200, body = Performance (generateDistrictData (js ''UNKNOWNCODE'') 9 2026)\<rparr>"
proof -
  have ne: "js ''UNKNOWNCODE'' \<noteq> []"
    by (simp add: js_def)
  show ?thesis
    using performance_synthetic_fallback[of Map.empty "js ''UNKNOWNCODE''" None
        "\<lparr>getFullYear = 2026, getMonth = 10\<rparr>" 10 2026 undefined]
      performance_synthetic_fallback[of Map.empty "js ''UNKNOWNCODE''"
        "Some \<lparr>districts = [], performance = []\<rparr>"
        "\<lparr>getFullYear = 2026, getMonth = 10\<rparr>" 10 2026 undefined]
      performance_synthetic_fallback[of "[js ''perf_'' @ js ''UNKNOWNCODE'' \<mapsto> Performance (generateDistrictData (js ''UNKNOWNCODE'') 9 2026)]"
        "js ''UNKNOWNCODE''" None "\<lparr>getFullYear = 2026, getMonth = 10\<rparr>" 10 2026 "Performance (generateDistrictData (js ''UNKNOWNCODE'') 9 2026)"]
      ne
    by simp
qed

lemma totalJobCards_K_Oct_2026:
  "\<exists>r. totalJobCards (generateDistrictData (js (CHR ''K'' # s)) 9 2026) = Some r \<and> 80000 \<le> r"
proof -
  have c: "charCodeAt0 (js (CHR ''K'' # s)) = Some 75"
    by (simp add: charCodeAt0_def js_def)
  have r: "random (Some 2110) 80000 150000
      = Some (\<lfloor>sin (real_of_int (2110 * 9999)) * 10000\<rfloor> smod (150000 - 80000) + 80000)"
    by (simp add: random_def)
  have "0 \<le> sin (real_of_int (2110 * 9999))"
    using sin_21097890 by simp
  then have "80000 \<le> \<lfloor>sin (real_of_int (2110 * 9999)) * 10000\<rfloor> smod (150000 - 80000) + 80000"
    using random_range_nonneg[OF _ r] by simp
  then show ?thesis
    using r by (simp add: generateDistrictData_def c Let_def)
qed

lemma totalJobCards_K_Nov_2026:
  "totalJobCards (generateDistrictData (js (CHR ''K'' # s)) 10 2026) = Some 72822"
proof -
  have c: "charCodeAt0 (js (CHR ''K'' # s)) = Some 75"
    by (simp add: charCodeAt0_def js_def)
  show ?thesis
    by (simp add: generateDistrictData_def c random_def sin_21107889 signed_modulo_int_def)
qed

text \<open>
  C6 as stated fails on a cache hit: a request for the unknown code KAR in October 2026
  stores the generated October record; a request in November, served from the cache,
  returns that record and not the one generated for November.
\<close>

theorem performance_cache_counterexample:
  "snd (getPerformance
          (fst (getPerformance Map.empty (Some \<lparr>districts = [], performance = []\<rparr>)
                  \<lparr>getFullYear = 2026, getMonth = 9\<rparr> (js ''KAR'')))
          (Some \<lparr>districts = [], performance = []\<rparr>)
          \<lparr>getFullYear = 2026, getMonth = 10\<rparr> (js ''KAR''))
     \<noteq> \<lparr>status = 200, body = Performance (generateDistrictData (js ''KAR'') 10 2026)\<rparr>"
proof -
  have first: "fst (getPerformance Map.empty (Some \<lparr>districts = [], performance = []\<rparr>)
                  \<lparr>getFullYear = 2026, getMonth = 9\<rparr> (js ''KAR''))
      = [js ''perf_'' @ js ''KAR'' \<mapsto> Performance (generateDistrictData (js ''KAR'') 9 2026)]"
    by (simp add: getPerformance_def selectPerformance_def Let_def)
  have second: "snd (getPerformance
          [js ''perf_'' @ js ''KAR'' \<mapsto> Performance (generateDistrictData (js ''KAR'') 9 2026)]
          (Some \<lparr>districts = [], performance = []\<rparr>)
          \<lparr>getFullYear = 2026, getMonth = 10\<rparr> (js ''KAR''))
      = \<lparr>status = 200, body = Performance (generateDistrictData (js ''KAR'') 9 2026)\<rparr>"
    by (simp add: getPerformance_def json_def Let_def)
  obtain r where r: "totalJobCards (generateDistrictData (js ''KAR'') 9 2026) = Some r" "80000 \<le> r"
    using totalJobCards_K_Oct_2026[of "''AR''"] by auto
  have "generateDistrictData (js ''KAR'') 9 2026 \<noteq> generateDistrictData (js ''KAR'') 10 2026"
  proof
    assume "generateDistrictData (js ''KAR'') 9 2026 = generateDistrictData (js ''KAR'') 10 2026"
    then have "totalJobCards (generateDistrictData (js ''KAR'') 9 2026) = Some 72822"
      using totalJobCards_K_Nov_2026[of "''AR''"] by simp
    then show False using r by simp
  qed
  then show ?thesis
    unfolding first second by simp
qed

section \<open>GET /api/trends\<close>

lemma in_set_mapI: "x \<in> set xs \<Longrightarrow> f x \<in> set (map f xs)"
  by simp

lemma key_le_iff:
  "((- year r, - month r) \<le> (- year r', - month r')) = (period r' \<le> period r)"
  unfolding period_def less_eq_prod_simp by linarith

lemma selectPerformance_length: "length (selectPerformance c n d) \<le> n"
  by (simp add: selectPerformance_def)

lemma selectPerformance_empty_iff:
  "0 < n \<Longrightarrow>
   (selectPerformance c n d = []) = (filter (\<lambda>r. district_code r = c) (performance d) = [])"
proof -
  assume n: "0 < n"
  have "(sort_key (\<lambda>r. (- year r, - month r)) (filter (\<lambda>r. district_code r = c) (performance d)) = [])
      = (filter (\<lambda>r. district_code r = c) (performance d) = [])"
    by (simp only: set_empty[symmetric] set_sort)
  then show ?thesis
    using n by (simp add: selectPerformance_def)
qed

lemma selectPerformance_set:
  "r \<in> set (selectPerformance c n d) \<Longrightarrow> r \<in> set (performance d) \<and> district_code r = c"
proof -
  assume "r \<in> set (selectPerformance c n d)"
  then have "r \<in> set (sort_key (\<lambda>r. (- year r, - month r))
      (filter (\<lambda>r. district_code r = c) (performance d)))"
    unfolding selectPerformance_def by (rule in_set_takeD)
  then show ?thesis by simp
qed

lemma selectPerformance_sorted: "sorted (map period (rev (selectPerformance c n d)))"
proof -
  let ?k = "\<lambda>r. (- year r, - month r)"
  let ?ss = "sort_key ?k (filter (\<lambda>r. district_code r = c) (performance d))"
  have "sorted (map ?k ?ss)"
    by (rule sorted_sort_key)
  then have "sorted (map ?k (take n ?ss))"
    by (simp add: take_map[symmetric])
  then have "sorted_wrt (\<lambda>a b. ?k a \<le> ?k b) (take n ?ss)"
    by (simp add: sorted_map)
  then have "sorted_wrt (\<lambda>a b. period b \<le> period a) (take n ?ss)"
    by (simp only: key_le_iff)
  then have "sorted_wrt (\<lambda>a b. period a \<le> period b) (rev (take n ?ss))"
    by (simp add: sorted_wrt_rev)
  then show ?thesis
    by (simp add: selectPerformance_def sorted_map)
qed

lemma selectPerformance_most_recent:
  assumes "r \<in> set (performance d)" "district_code r = c" "r \<notin> set (selectPerformance c n d)"
  shows "length (selectPerformance c n d) = n
         \<and> (\<forall>r' \<in> set (selectPerformance c n d). period r \<le> period r')"
proof -
  let ?k = "\<lambda>r. (- year r, - month r)"
  let ?ss = "sort_key ?k (filter (\<lambda>r. district_code r = c) (performance d))"
  have split: "set ?ss = set (take n ?ss) \<union> set (drop n ?ss)"
    by (simp only: set_append[symmetric] append_take_drop_id)
  have "r \<in> set ?ss" using assms(1,2) by simp
  moreover have "r \<notin> set (take n ?ss)"
    using assms(3) by (simp add: selectPerformance_def)
  ultimately have dr: "r \<in> set (drop n ?ss)"
    using split by blast
  then have "drop n ?ss \<noteq> []" by auto
  then have len: "length (take n ?ss) = n" by simp
  have "sorted (map ?k ?ss)"
    by (rule sorted_sort_key)
  then have "sorted (map ?k (take n ?ss) @ map ?k (drop n ?ss))"
    by (simp only: map_append[symmetric] append_take_drop_id)
  then have ord: "\<forall>x \<in> set (map ?k (take n ?ss)). \<forall>y \<in> set (map ?k (drop n ?ss)). x \<le> y"
    unfolding sorted_append by (rule conjunct2[THEN conjunct2])
  have "\<forall>x \<in> set (take n ?ss). ?k x \<le> ?k r"
  proof
    fix x
    assume "x \<in> set (take n ?ss)"
    then have "?k x \<in> set (map ?k (take n ?ss))"
      by (rule in_set_mapI[where f = ?k])
    moreover have "?k r \<in> set (map ?k (drop n ?ss))"
      using dr by (rule in_set_mapI[where f = ?k])
    ultimately show "?k x \<le> ?k r"
      using ord by blast
  qed
  then have "\<forall>x \<in> set (take n ?ss). period r \<le> period x"
    by (simp only: key_le_iff)
  then show ?thesis
    using len by (simp add: selectPerformance_def)
qed

lemma newDate_month_index:
  "\<not> (0 \<le> y \<and> y \<le> 99) \<Longrightarrow>
   12 * getFullYear (newDate y m) + getMonth (newDate y m) = 12 * y + m
   \<and> 0 \<le> getMonth (newDate y m) \<and> getMonth (newDate y m) < 12"
  by (simp add: newDate_def)

lemma getTrends_miss:
  "cache (js ''trends_'' @ districtCode) = None \<Longrightarrow>
   snd (getTrends shortMonth cache (Some d) now districtCode) =
     \<lparr>status = 200,
      body = Trends (if selectPerformance districtCode 7 d \<noteq> []
                     then map (trendOfRow shortMonth) (rev (selectPerformance districtCode 7 d))
                     else map (syntheticTrend now districtCode) [6, 5, 4, 3, 2, 1, 0])\<rparr>"
  by (cases "selectPerformance districtCode 7 d")
    (simp_all add: getTrends_def json_def Let_def loopIndices_def rev_map)

text \<open>
  C7, amended. On a cache miss with the query succeeding, GET /api/trends/:districtCode
  answers 200 with a sequence ordered oldest to newest: when storage holds a row of
  the code, the at most 7 most recent rows (by year, then month), mapped and reversed;
  when it holds none, the 7 entries generated for the six preceding months and the
  current one, in that order. On a cache miss with a failing query the answer is 500; on
  a cache hit it is the cached value.
\<close>

theorem trends_oldest_first:
  "(cache (js ''trends_'' @ districtCode) = None \<and> pool = Some d \<longrightarrow>
      (let rows = selectPerformance districtCode 7 d;
           res = snd (getTrends shortMonth cache pool now districtCode)
       in (rows \<noteq> [] \<longrightarrow>
             res = \<lparr>status = 200, body = Trends (map (trendOfRow shortMonth) (rev rows))\<rparr>)
        \<and> (rows = [] \<longrightarrow>
             res = \<lparr>status = 200,
                    body = Trends (map (syntheticTrend now districtCode) [6, 5, 4, 3, 2, 1, 0])\<rparr>)
        \<and> length rows \<le> 7
        \<and> (rows = []) = (filter (\<lambda>r. district_code r = districtCode) (performance d) = [])
        \<and> (\<forall>r \<in> set rows. r \<in> set (performance d) \<and> district_code r = districtCode)
        \<and> sorted (map period (rev rows))
        \<and> (\<forall>r \<in> set (performance d). district_code r = districtCode \<and> r \<notin> set rows \<longrightarrow>
              length rows = 7 \<and> (\<forall>r' \<in> set rows. period r \<le> period r'))))
   \<and> (cache (js ''trends_'' @ districtCode) = None \<and> pool = None \<longrightarrow>
        snd (getTrends shortMonth cache pool now districtCode) =
          \<lparr>status = 500, body = ErrorMessage ''Failed to fetch trends''\<rparr>)
   \<and> (cache (js ''trends_'' @ districtCode) = Some cached \<longrightarrow>
        snd (getTrends shortMonth cache pool now districtCode) = \<lparr>status = 200, body = cached\<rparr>)
   \<and> (\<not> (0 \<le> getFullYear now \<and> getFullYear now \<le> 99) \<longrightarrow>
        (let t = syntheticTrend now districtCode i;
             d = newDate (getFullYear now) (getMonth now - i)
         in trend_year t = getFullYear d \<and> trend_month t = monthNames ! nat (getMonth d)
          \<and> 0 \<le> getMonth d \<and> getMonth d < 12
          \<and> 12 * getFullYear d + getMonth d = 12 * getFullYear now + getMonth now - i))"
proof (intro conjI impI)
  assume h: "cache (js ''trends_'' @ districtCode) = None \<and> pool = Some d"
  have res: "snd (getTrends shortMonth cache pool now districtCode) =
     \<lparr>status = 200,
      body = Trends (if selectPerformance districtCode 7 d \<noteq> []
                     then map (trendOfRow shortMonth) (rev (selectPerformance districtCode 7 d))
                     else map (syntheticTrend now districtCode) [6, 5, 4, 3, 2, 1, 0])\<rparr>"
    using h getTrends_miss[of cache districtCode shortMonth d now] by simp
  have e: "(selectPerformance districtCode 7 d = [])
      = (filter (\<lambda>r. district_code r = districtCode) (performance d) = [])"
    by (rule selectPerformance_empty_iff) simp
  have m: "\<forall>r \<in> set (performance d).
      district_code r = districtCode \<and> r \<notin> set (selectPerformance districtCode 7 d) \<longrightarrow>
        length (selectPerformance districtCode 7 d) = 7
        \<and> (\<forall>r' \<in> set (selectPerformance districtCode 7 d). period r \<le> period r')"
    using selectPerformance_most_recent[of _ d districtCode 7] by blast
  have s: "\<forall>r \<in> set (selectPerformance districtCode 7 d).
      r \<in> set (performance d) \<and> district_code r = districtCode"
    using selectPerformance_set[of _ districtCode 7 d] by blast
  show "let rows = selectPerformance districtCode 7 d;
           res = snd (getTrends shortMonth cache pool now districtCode)
       in (rows \<noteq> [] \<longrightarrow>
             res = \<lparr>status = 200, body = Trends (map (trendOfRow shortMonth) (rev rows))\<rparr>)
        \<and> (rows = [] \<longrightarrow>
             res = \<lparr>status = 200,
                    body = Trends (map (syntheticTrend now districtCode) [6, 5, 4, 3, 2, 1, 0])\<rparr>)
        \<and> length rows \<le> 7
        \<and> (rows = []) = (filter (\<lambda>r. district_code r = districtCode) (performance d) = [])
        \<and> (\<forall>r \<in> set rows. r \<in> set (performance d) \<and> district_code r = districtCode)
        \<and> sorted (map period (rev rows))
        \<and> (\<forall>r \<in> set (performance d). district_code r = districtCode \<and> r \<notin> set rows \<longrightarrow>
              length rows = 7 \<and> (\<forall>r' \<in> set rows. period r \<le> period r'))"
    unfolding Let_def
  proof (intro conjI)
    show "selectPerformance districtCode 7 d \<noteq> [] \<longrightarrow>
        snd (getTrends shortMonth cache pool now districtCode) =
          \<lparr>status = 200,
           body = Trends (map (trendOfRow shortMonth) (rev (selectPerformance districtCode 7 d)))\<rparr>"
      unfolding res by simp
    show "selectPerformance districtCode 7 d = [] \<longrightarrow>
        snd (getTrends shortMonth cache pool now districtCode) =
          \<lparr>status = 200,
           body = Trends (map (syntheticTrend now districtCode) [6, 5, 4, 3, 2, 1, 0])\<rparr>"
      unfolding res by simp
    show "length (selectPerformance districtCode 7 d) \<le> 7"
      by (rule selectPerformance_length)
    show "(selectPerformance districtCode 7 d = [])
        = (filter (\<lambda>r. district_code r = districtCode) (performance d) = [])"
      by (rule e)
    show "\<forall>r \<in> set (selectPerformance districtCode 7 d).
        r \<in> set (performance d) \<and> district_code r = districtCode"
      by (rule s)
    show "sorted (map period (rev (selectPerformance districtCode 7 d)))"
      by (rule selectPerformance_sorted)
    show "\<forall>r \<in> set (performance d).
        district_code r = districtCode \<and> r \<notin> set (selectPerformance districtCode 7 d) \<longrightarrow>
          length (selectPerformance districtCode 7 d) = 7
          \<and> (\<forall>r' \<in> set (selectPerformance districtCode 7 d). period r \<le> period r')"
      by (rule m)
  qed
next
  assume "cache (js ''trends_'' @ districtCode) = None \<and> pool = None"
  then show "snd (getTrends shortMonth cache pool now districtCode) =
          \<lparr>status = 500, body = ErrorMessage ''Failed to fetch trends''\<rparr>"
    by (simp add: getTrends_def)
next
  assume "cache (js ''trends_'' @ districtCode) = Some cached"
  then show "snd (getTrends shortMonth cache pool now districtCode) = \<lparr>status = 200, body = cached\<rparr>"
    by (simp add: getTrends_def json_def)
next
  assume y: "\<not> (0 \<le> getFullYear now \<and> getFullYear now \<le> 99)"
  show "let t = syntheticTrend now districtCode i;
             d = newDate (getFullYear now) (getMonth now - i)
         in trend_year t = getFullYear d \<and> trend_month t = monthNames ! nat (getMonth d)
          \<and> 0 \<le> getMonth d \<and> getMonth d < 12
          \<and> 12 * getFullYear d + getMonth d = 12 * getFullYear now + getMonth now - i"
    using newDate_month_index[OF y, of "getMonth now - i"]
    by (simp add: Let_def syntheticTrend_def)
qed

lemma sort_two_rows:
  "sort_key (\<lambda>r. (- year r, - month r))
     [\<lparr>district_code = c, month = 9, year = 2026, data = a, updated_at = s\<rparr>,
      \<lparr>district_code = c, month = 10, year = 2026, data = b, updated_at = t\<rparr>]
   = [\<lparr>district_code = c, month = 10, year = 2026, data = b, updated_at = t\<rparr>,
      \<lparr>district_code = c, month = 9, year = 2026, data = a, updated_at = s\<rparr>]"
  by simp

lemma codes_seed: "map code MAHARASHTRA_DISTRICTS =
    map js [''KOL'', ''MUM'', ''PUN'', ''NAG'', ''NAS'', ''AUR'', ''SOL'', ''THA'', ''AHM'',
            ''SAT'', ''SAN'', ''JAL'', ''AMR'', ''RAI'', ''RAT'']"
  by (simp add: MAHARASHTRA_DISTRICTS_def)

lemma filter_after_refresh:
  "filter (\<lambda>r. district_code r = js ''KOL'')
     (refreshJob \<lparr>getFullYear = 2026, getMonth = 10\<rparr> 1 (map code MAHARASHTRA_DISTRICTS)
        [\<lparr>district_code = js ''KOL'', month = 9, year = 2026,
          data = generateDistrictData (js ''KOL'') 9 2026, updated_at = 0\<rparr>])
   = [\<lparr>district_code = js ''KOL'', month = 9, year = 2026,
        data = generateDistrictData (js ''KOL'') 9 2026, updated_at = 0\<rparr>,
      \<lparr>district_code = js ''KOL'', month = 10, year = 2026,
        data = generateDistrictData (js ''KOL'') 10 2026, updated_at = 1\<rparr>]"
  by (simp add: codes_seed upsertPerformance_def perf_key_def js_def)

theorem trends_oldest_first_witness:
  "snd (getTrends (\<lambda>d. monthNames ! nat (getMonth d)) Map.empty
          (Some \<lparr>districts = MAHARASHTRA_DISTRICTS,
                 performance =
                   [\<lparr>district_code = js ''KOL'', month = 9, year = 2026,
                     data = generateDistrictData (js ''KOL'') 9 2026, updated_at = 0\<rparr>,
                    \<lparr>district_code = js ''KOL'', month = 10, year = 2026,
                     data = generateDistrictData (js ''KOL'') 10 2026, updated_at = 1\<rparr>]\<rparr>)
          \<lparr>getFullYear = 2026, getMonth = 10\<rparr> (js ''KOL''))
     = \<lparr>status = 200,
        body = Trends
          [trendOfRow (\<lambda>d. monthNames ! nat (getMonth d))
             \<lparr>district_code = js ''KOL'', month = 9, year = 2026,
              data = generateDistrictData (js ''KOL'') 9 2026, updated_at = 0\<rparr>,
           trendOfRow (\<lambda>d. monthNames ! nat (getMonth d))
             \<lparr>district_code = js ''KOL'', month = 10, year = 2026,
              data = generateDistrictData (js ''KOL'') 10 2026, updated_at = 1\<rparr>]\<rparr>
   \<and> trend_year (syntheticTrend \<lparr>getFullYear = 2026, getMonth = 1\<rparr> (js ''KOL'') 6) = 2025
   \<and> trend_month (syntheticTrend \<lparr>getFullYear = 2026, getMonth = 1\<rparr> (js ''KOL'') 6) = js ''Aug''"
proof -
  let ?oct = "\<lparr>district_code = js ''KOL'', month = 9, year = 2026,
                data = generateDistrictData (js ''KOL'') 9 2026, updated_at = 0\<rparr>"
  let ?nov = "\<lparr>district_code = js ''KOL'', month = 10, year = 2026,
                data = generateDistrictData (js ''KOL'') 10 2026, updated_at = 1\<rparr>"
  let ?d = "\<lparr>districts = MAHARASHTRA_DISTRICTS, performance = [?oct, ?nov]\<rparr>"
  let ?sm = "\<lambda>d. monthNames ! nat (getMonth d)"
  have rows: "selectPerformance (js ''KOL'') 7 ?d = [?nov, ?oct]"
    by (simp add: selectPerformance_def)
  have stored: "snd (getTrends ?sm Map.empty (Some ?d) \<lparr>getFullYear = 2026, getMonth = 10\<rparr> (js ''KOL''))
      = \<lparr>status = 200, body = Trends (map (trendOfRow ?sm) (rev (selectPerformance (js ''KOL'') 7 ?d)))\<rparr>"
    using trends_oldest_first[where cache = Map.empty and districtCode = "js ''KOL''"
        and pool = "Some ?d" and d = ?d and shortMonth = ?sm
        and now = "\<lparr>getFullYear = 2026, getMonth = 10\<rparr>", THEN conjunct1, rule_format,
        unfolded Let_def, THEN conjunct1, rule_format] rows
    by simp
  have aug: "newDate 2026 (1 - 6) = \<lparr>getFullYear = 2025, getMonth = 7\<rparr>"
    by (simp add: newDate_def)
  have synth: "trend_year (syntheticTrend \<lparr>getFullYear = 2026, getMonth = 1\<rparr> (js ''KOL'') 6)
        = getFullYear (newDate 2026 (1 - 6))
      \<and> trend_month (syntheticTrend \<lparr>getFullYear = 2026, getMonth = 1\<rparr> (js ''KOL'') 6)
        = monthNames ! nat (getMonth (newDate 2026 (1 - 6)))"
    using trends_oldest_first[where now = "\<lparr>getFullYear = 2026, getMonth = 1\<rparr>"
        and districtCode = "js ''KOL''" and i = 6, THEN conjunct2, THEN conjunct2, THEN conjunct2,
        rule_format, unfolded Let_def]
    by simp
  have "monthNames ! nat 7 = js ''Aug''"
    by (simp add: monthNames_def numeral_eq_Suc)
  then show ?thesis
    using stored synth unfolding rows aug by simp
qed

text \<open>
  C7 as stated fails on a cache hit. In October 2026 the table holds one row of KOL and
  a request stores the one-entry sequence; the scheduled job then writes the November
  row; a request in November is served from the cache and returns the one entry,
  although storage now holds two rows of the code.
\<close>

theorem trends_cache_counterexample:
  "selectPerformance (js ''KOL'') 7
      \<lparr>districts = MAHARASHTRA_DISTRICTS,
       performance = refreshJob \<lparr>getFullYear = 2026, getMonth = 10\<rparr> 1
         (map code MAHARASHTRA_DISTRICTS)
         [\<lparr>district_code = js ''KOL'', month = 9, year = 2026,
           data = generateDistrictData (js ''KOL'') 9 2026, updated_at = 0\<rparr>]\<rparr> \<noteq> []
   \<and> snd (getTrends (\<lambda>d. monthNames ! nat (getMonth d))
          (fst (getTrends (\<lambda>d. monthNames ! nat (getMonth d)) Map.empty
                  (Some \<lparr>districts = MAHARASHTRA_DISTRICTS,
                         performance =
                           [\<lparr>district_code = js ''KOL'', month = 9, year = 2026,
                             data = generateDistrictData (js ''KOL'') 9 2026, updated_at = 0\<rparr>]\<rparr>)
                  \<lparr>getFullYear = 2026, getMonth = 9\<rparr> (js ''KOL'')))
          (Some \<lparr>districts = MAHARASHTRA_DISTRICTS,
                 performance = refreshJob \<lparr>getFullYear = 2026, getMonth = 10\<rparr> 1
                   (map code MAHARASHTRA_DISTRICTS)
                   [\<lparr>district_code = js ''KOL'', month = 9, year = 2026,
                     data = generateDistrictData (js ''KOL'') 9 2026, updated_at = 0\<rparr>]\<rparr>)
          \<lparr>getFullYear = 2026, getMonth = 10\<rparr> (js ''KOL''))
     \<noteq> \<lparr>status = 200,
         body = Trends (map (trendOfRow (\<lambda>d. monthNames ! nat (getMonth d)))
           (rev (selectPerformance (js ''KOL'') 7
              \<lparr>districts = MAHARASHTRA_DISTRICTS,
               performance = refreshJob \<lparr>getFullYear = 2026, getMonth = 10\<rparr> 1
                 (map code MAHARASHTRA_DISTRICTS)
                 [\<lparr>district_code = js ''KOL'', month = 9, year = 2026,
                   data = generateDistrictData (js ''KOL'') 9 2026, updated_at = 0\<rparr>]\<rparr>)))\<rparr>"
proof -
  let ?oct = "\<lparr>district_code = js ''KOL'', month = 9, year = 2026,
                data = generateDistrictData (js ''KOL'') 9 2026, updated_at = 0\<rparr>"
  let ?nov = "\<lparr>district_code = js ''KOL'', month = 10, year = 2026,
                data = generateDistrictData (js ''KOL'') 10 2026, updated_at = 1\<rparr>"
  let ?sm = "\<lambda>d. monthNames ! nat (getMonth d)"
  let ?d1 = "\<lparr>districts = MAHARASHTRA_DISTRICTS, performance = [?oct]\<rparr>"
  let ?d2 = "\<lparr>districts = MAHARASHTRA_DISTRICTS,
              performance = refreshJob \<lparr>getFullYear = 2026, getMonth = 10\<rparr> 1
                (map code MAHARASHTRA_DISTRICTS) [?oct]\<rparr>"
  have rows2: "selectPerformance (js ''KOL'') 7 ?d2 = [?nov, ?oct]"
    by (simp add: selectPerformance_def filter_after_refresh)
  have rows1: "selectPerformance (js ''KOL'') 7 ?d1 = [?oct]"
    by (simp add: selectPerformance_def)
  have first: "fst (getTrends ?sm Map.empty (Some ?d1) \<lparr>getFullYear = 2026, getMonth = 9\<rparr> (js ''KOL''))
      = [js ''trends_'' @ js ''KOL'' \<mapsto> Trends [trendOfRow ?sm ?oct]]"
    by (simp add: getTrends_def rows1 Let_def)
  have second: "snd (getTrends ?sm [js ''trends_'' @ js ''KOL'' \<mapsto> Trends [trendOfRow ?sm ?oct]]
        (Some ?d2) \<lparr>getFullYear = 2026, getMonth = 10\<rparr> (js ''KOL''))
      = \<lparr>status = 200, body = Trends [trendOfRow ?sm ?oct]\<rparr>"
    by (simp add: getTrends_def json_def Let_def)
  show ?thesis
    unfolding first second rows2 by simp
qed

section \<open>Bootstrap\<close>

lemma fold_insertDistrict_id:
  "set (map code xs) \<subseteq> set (map code ds) \<Longrightarrow> fold insertDistrict xs ds = ds"
  by (induction xs arbitrary: ds) (auto simp: insertDistrict_def)

lemma insertDistrict_codes:
  "code ` set (insertDistrict x ds) = insert (code x) (code ` set ds)"
  by (auto simp: insertDistrict_def)

lemma fold_insertDistrict_codes:
  "code ` set (fold insertDistrict xs ds) = code ` set xs \<union> code ` set ds"
  by (induction xs arbitrary: ds) (auto simp: insertDistrict_codes)

lemma insertDistrict_distinct:
  "distinct (map code ds) \<Longrightarrow> distinct (map code (insertDistrict x ds))"
  by (auto simp: insertDistrict_def)

lemma fold_insertDistrict_distinct:
  "distinct (map code ds) \<Longrightarrow> distinct (map code (fold insertDistrict xs ds))"
  by (induction xs arbitrary: ds) (simp_all add: insertDistrict_distinct)

lemma perf_key_backfillRow:
  "perf_key (backfillRow now stamp c i) = perf_key (backfillRow now stamp' c i)"
  by (simp add: perf_key_def backfillRow_def Let_def)

lemma check_backfillRow:
  "month (backfillRow now stamp c i) = month (backfillRow now stamp' c' i)"
  "year (backfillRow now stamp c i) = year (backfillRow now stamp' c' i)"
  by (simp_all add: backfillRow_def Let_def)

lemma appendsOnlyNew_refl: "appendsOnlyNew rows rows"
  by (simp add: appendsOnlyNew_def)

lemma appendsOnlyNew_trans:
  assumes "appendsOnlyNew a b" "appendsOnlyNew b c"
  shows "appendsOnlyNew a c"
proof -
  obtain n1 where n1: "b = a @ n1" "\<forall>r \<in> set n1. perf_key r \<notin> set (map perf_key a)"
    "distinct (map perf_key a) \<longrightarrow> distinct (map perf_key b)"
    using assms(1) unfolding appendsOnlyNew_def by blast
  obtain n2 where n2: "c = b @ n2" "\<forall>r \<in> set n2. perf_key r \<notin> set (map perf_key b)"
    "distinct (map perf_key b) \<longrightarrow> distinct (map perf_key c)"
    using assms(2) unfolding appendsOnlyNew_def by blast
  have "c = a @ (n1 @ n2)" using n1(1) n2(1) by simp
  moreover have "\<forall>r \<in> set (n1 @ n2). perf_key r \<notin> set (map perf_key a)"
    using n1(1,2) n2(2) by auto
  moreover have "distinct (map perf_key a) \<longrightarrow> distinct (map perf_key c)"
    using n1(3) n2(3) by blast
  ultimately show ?thesis
    unfolding appendsOnlyNew_def by blast
qed

lemma insertPerformance_Inr:
  assumes "insertPerformance r rows = Inr rows'"
  shows "appendsOnlyNew rows rows'"
    and "perf_key r \<in> set (map perf_key rows')"
    and "month r \<ge> 0 \<and> month r \<le> 11 \<and> year r \<ge> 2024"
proof -
  have c: "month r \<ge> 0 \<and> month r \<le> 11 \<and> year r \<ge> 2024"
    using assms by (auto simp: insertPerformance_def split: if_splits)
  show "month r \<ge> 0 \<and> month r \<le> 11 \<and> year r \<ge> 2024" by (rule c)
  show "perf_key r \<in> set (map perf_key rows')"
    using assms by (auto simp: insertPerformance_def split: if_splits)
  show "appendsOnlyNew rows rows'"
  proof (cases "perf_key r \<in> set (map perf_key rows)")
    case True
    then have "rows' = rows" using assms c by (simp add: insertPerformance_def)
    then show ?thesis by (simp add: appendsOnlyNew_refl)
  next
    case False
    then have "rows' = rows @ [r]" using assms c by (simp add: insertPerformance_def)
    then show ?thesis using False
      unfolding appendsOnlyNew_def by (intro exI[of _ "[r]"]) auto
  qed
qed

lemma insertPerformance_present:
  "month r \<ge> 0 \<and> month r \<le> 11 \<and> year r \<ge> 2024 \<Longrightarrow>
   perf_key r \<in> set (map perf_key rows) \<Longrightarrow> insertPerformance r rows = Inr rows"
  by (simp add: insertPerformance_def)

lemma appendsOnlyNew_keys:
  "appendsOnlyNew rows rows' \<Longrightarrow> set (map perf_key rows) \<subseteq> set (map perf_key rows')"
  unfolding appendsOnlyNew_def by auto

lemma backfillDistrict_Inr:
  "backfillDistrict now stamp c is rows = Inr rows' \<Longrightarrow>
   appendsOnlyNew rows rows' \<and>
   (\<forall>i \<in> set is. perf_key (backfillRow now stamp c i) \<in> set (map perf_key rows') \<and>
      month (backfillRow now stamp c i) \<ge> 0 \<and> month (backfillRow now stamp c i) \<le> 11 \<and>
      year (backfillRow now stamp c i) \<ge> 2024)"
proof (induction "is" arbitrary: rows)
  case Nil
  then show ?case by (simp add: appendsOnlyNew_refl)
next
  case (Cons i "is")
  obtain r1 where r1: "insertPerformance (backfillRow now stamp c i) rows = Inr r1"
    and rest: "backfillDistrict now stamp c is r1 = Inr rows'"
    using Cons.prems by (auto split: sum.splits)
  note ih = Cons.IH[OF rest]
  note ins = insertPerformance_Inr[OF r1]
  have "appendsOnlyNew rows rows'"
    using ins(1) ih by (blast intro: appendsOnlyNew_trans)
  moreover have "perf_key (backfillRow now stamp c i) \<in> set (map perf_key rows')"
    using ins(2) ih appendsOnlyNew_keys[of r1 rows'] by blast
  ultimately show ?case
    using ins(3) ih by simp
qed

lemma backfillDistrict_id:
  "(\<forall>i \<in> set is. perf_key (backfillRow now stamp c i) \<in> set (map perf_key rows) \<and>
      month (backfillRow now stamp c i) \<ge> 0 \<and> month (backfillRow now stamp c i) \<le> 11 \<and>
      year (backfillRow now stamp c i) \<ge> 2024) \<Longrightarrow>
   backfillDistrict now stamp' c is rows = Inr rows"
proof (induction "is")
  case Nil
  then show ?case by simp
next
  case (Cons i "is")
  have k: "perf_key (backfillRow now stamp' c i) \<in> set (map perf_key rows)"
    using Cons.prems perf_key_backfillRow[of now stamp' c i stamp] by simp
  have ch: "month (backfillRow now stamp' c i) \<ge> 0 \<and> month (backfillRow now stamp' c i) \<le> 11
      \<and> year (backfillRow now stamp' c i) \<ge> 2024"
    using Cons.prems check_backfillRow[of now stamp' c i stamp c] by simp
  have "insertPerformance (backfillRow now stamp' c i) rows = Inr rows"
    using ch k by (rule insertPerformance_present)
  then show ?case
    using Cons by simp
qed

lemma backfill_Inr:
  "backfill now stamp cs rows = Inr rows' \<Longrightarrow>
   appendsOnlyNew rows rows' \<and>
   (\<forall>c \<in> set cs. \<forall>i \<in> set loopIndices.
      perf_key (backfillRow now stamp c i) \<in> set (map perf_key rows') \<and>
      month (backfillRow now stamp c i) \<ge> 0 \<and> month (backfillRow now stamp c i) \<le> 11 \<and>
      year (backfillRow now stamp c i) \<ge> 2024)"
proof (induction cs arbitrary: rows)
  case Nil
  then show ?case by (simp add: appendsOnlyNew_refl)
next
  case (Cons c cs)
  obtain r1 where r1: "backfillDistrict now stamp c loopIndices rows = Inr r1"
    and rest: "backfill now stamp cs r1 = Inr rows'"
    using Cons.prems by (auto split: sum.splits)
  note ih = Cons.IH[OF rest]
  note one = backfillDistrict_Inr[OF r1]
  have "appendsOnlyNew rows rows'"
    using one ih by (blast intro: appendsOnlyNew_trans)
  moreover have "\<forall>i \<in> set loopIndices.
      perf_key (backfillRow now stamp c i) \<in> set (map perf_key rows') \<and>
      month (backfillRow now stamp c i) \<ge> 0 \<and> month (backfillRow now stamp c i) \<le> 11 \<and>
      year (backfillRow now stamp c i) \<ge> 2024"
    using one ih appendsOnlyNew_keys[of r1 rows'] by blast
  ultimately show ?case
    using ih by simp
qed

lemma backfill_id:
  "(\<forall>c \<in> set cs. \<forall>i \<in> set loopIndices.
      perf_key (backfillRow now stamp c i) \<in> set (map perf_key rows) \<and>
      month (backfillRow now stamp c i) \<ge> 0 \<and> month (backfillRow now stamp c i) \<le> 11 \<and>
      year (backfillRow now stamp c i) \<ge> 2024) \<Longrightarrow>
   backfill now stamp' cs rows = Inr rows"
proof (induction cs)
  case Nil
  then show ?case by simp
next
  case (Cons c cs)
  have "backfillDistrict now stamp' c loopIndices rows = Inr rows"
    using Cons.prems by (intro backfillDistrict_id[where stamp = stamp]) simp
  then show ?case
    using Cons by simp
qed

lemma backfillRow_check:
  assumes "\<not> (0 \<le> getFullYear now \<and> getFullYear now \<le> 99)"
    and "12 * 2024 \<le> 12 * getFullYear now + getMonth now - 6" and "i \<le> 6"
  shows "month (backfillRow now stamp c i) \<ge> 0 \<and> month (backfillRow now stamp c i) \<le> 11 \<and>
         year (backfillRow now stamp c i) \<ge> 2024"
proof -
  let ?d = "newDate (getFullYear now) (getMonth now - i)"
  have m: "12 * getFullYear ?d + getMonth ?d = 12 * getFullYear now + (getMonth now - i)"
    "0 \<le> getMonth ?d" "getMonth ?d < 12"
    using newDate_month_index[OF assms(1), of "getMonth now - i"] by simp_all
  have "2024 \<le> getFullYear ?d"
    using m assms(2,3) by linarith
  then show ?thesis
    using m by (simp add: backfillRow_def Let_def)
qed

lemma insertPerformance_ok:
  "month r \<ge> 0 \<and> month r \<le> 11 \<and> year r \<ge> 2024 \<Longrightarrow> \<exists>rows'. insertPerformance r rows = Inr rows'"
  by (simp add: insertPerformance_def)

lemma backfillDistrict_ok:
  "(\<forall>i \<in> set is. month (backfillRow now stamp c i) \<ge> 0 \<and> month (backfillRow now stamp c i) \<le> 11 \<and>
      year (backfillRow now stamp c i) \<ge> 2024) \<Longrightarrow>
   \<exists>rows'. backfillDistrict now stamp c is rows = Inr rows'"
proof (induction "is" arbitrary: rows)
  case Nil
  then show ?case by simp
next
  case (Cons i "is")
  obtain r1 where r1: "insertPerformance (backfillRow now stamp c i) rows = Inr r1"
    using insertPerformance_ok[of "backfillRow now stamp c i" rows] Cons.prems by auto
  obtain r2 where "backfillDistrict now stamp c is r1 = Inr r2"
    using Cons.IH[of r1] Cons.prems by auto
  then show ?case using r1 by simp
qed

lemma backfill_ok:
  "(\<forall>c \<in> set cs. \<forall>i \<in> set loopIndices.
      month (backfillRow now stamp c i) \<ge> 0 \<and> month (backfillRow now stamp c i) \<le> 11 \<and>
      year (backfillRow now stamp c i) \<ge> 2024) \<Longrightarrow>
   \<exists>rows'. backfill now stamp cs rows = Inr rows'"
proof (induction cs arbitrary: rows)
  case Nil
  then show ?case by simp
next
  case (Cons c cs)
  obtain r1 where r1: "backfillDistrict now stamp c loopIndices rows = Inr r1"
    using backfillDistrict_ok[of loopIndices now stamp c rows] Cons.prems by auto
  obtain r2 where "backfill now stamp cs r1 = Inr r2"
    using Cons.IH[of r1] Cons.prems by auto
  then show ?case using r1 by simp
qed

lemma initDatabase_ok:
  assumes "\<not> (0 \<le> getFullYear now \<and> getFullYear now \<le> 99)"
    and "12 * 2024 \<le> 12 * getFullYear now + getMonth now - 6"
  shows "\<exists>db1. initDatabase now stamp (Some d) = Inr db1"
proof -
  have "\<forall>c \<in> set (map code (fold insertDistrict MAHARASHTRA_DISTRICTS (districts d))).
      \<forall>i \<in> set loopIndices.
      month (backfillRow now stamp c i) \<ge> 0 \<and> month (backfillRow now stamp c i) \<le> 11 \<and>
      year (backfillRow now stamp c i) \<ge> 2024"
    using backfillRow_check[OF assms] by (auto simp: loopIndices_def)
  then obtain rows' where
    "backfill now stamp (map code (fold insertDistrict MAHARASHTRA_DISTRICTS (districts d)))
       (performance d) = Inr rows'"
    using backfill_ok by blast
  then show ?thesis
    by (simp add: initDatabase_def Let_def)
qed

lemma initDatabase_Inr:
  assumes "initDatabase now stamp (Some d) = Inr db1"
  shows "districts db1 = fold insertDistrict MAHARASHTRA_DISTRICTS (districts d)"
    and "backfill now stamp (map code (districts db1)) (performance d) = Inr (performance db1)"
  using assms by (auto simp: initDatabase_def Let_def split: sum.splits)

text \<open>
  C8, amended. After a run of \<open>initDatabase\<close> that succeeded, a second run at the
  same month and year, whatever its timestamp, leaves both tables exactly as they were.
  A second run at any other time that succeeds leaves the districts table as it was and
  changes no performance row: the rows of the first run stand unchanged at the front,
  and every row added has a key that was absent. Neither table gets a duplicate key
  from a run.
\<close>

theorem initDatabase_idempotent:
  "initDatabase now stamp pool = Inr db1 \<longrightarrow>
     initDatabase now stamp' (Some db1) = Inr db1
   \<and> (initDatabase now' stamp' (Some db1) = Inr db2 \<longrightarrow>
        districts db2 = districts db1 \<and> appendsOnlyNew (performance db1) (performance db2))
   \<and> (\<forall>d0. pool = Some d0 \<longrightarrow>
        (distinct (map code (districts d0)) \<longrightarrow> distinct (map code (districts db1)))
        \<and> appendsOnlyNew (performance d0) (performance db1))"
proof
  assume run: "initDatabase now stamp pool = Inr db1"
  then obtain d where pool: "pool = Some d"
    by (cases pool) (simp_all add: initDatabase_def)
  note first = initDatabase_Inr[OF run[unfolded pool]]
  have seeded: "fold insertDistrict MAHARASHTRA_DISTRICTS (districts db1) = districts db1"
    by (rule fold_insertDistrict_id) (simp add: first(1) fold_insertDistrict_codes)
  have filled: "backfill now stamp' (map code (districts db1)) (performance db1) = Inr (performance db1)"
    using backfill_Inr[OF first(2)] by (intro backfill_id[where stamp = stamp]) blast
  have same: "initDatabase now stamp' (Some db1) = Inr db1"
    by (simp add: initDatabase_def Let_def seeded filled)
  have later: "districts db2 = districts db1 \<and> appendsOnlyNew (performance db1) (performance db2)"
    if "initDatabase now' stamp' (Some db1) = Inr db2"
  proof -
    note second = initDatabase_Inr[OF that]
    show ?thesis
      using second(1) backfill_Inr[OF second(2)] by (simp add: seeded)
  qed
  have start: "(distinct (map code (districts d0)) \<longrightarrow> distinct (map code (districts db1)))
        \<and> appendsOnlyNew (performance d0) (performance db1)" if "pool = Some d0" for d0
  proof -
    have "d0 = d" using that pool by simp
    then show ?thesis
      using first(1) backfill_Inr[OF first(2)] fold_insertDistrict_distinct by simp
  qed
  show "initDatabase now stamp' (Some db1) = Inr db1
   \<and> (initDatabase now' stamp' (Some db1) = Inr db2 \<longrightarrow>
        districts db2 = districts db1 \<and> appendsOnlyNew (performance db1) (performance db2))
   \<and> (\<forall>d0. pool = Some d0 \<longrightarrow>
        (distinct (map code (districts d0)) \<longrightarrow> distinct (map code (districts db1)))
        \<and> appendsOnlyNew (performance d0) (performance db1))"
    using same later start by blast
qed

theorem initDatabase_idempotent_witness:
  "\<exists>db1. initDatabase \<lparr>getFullYear = 2026, getMonth = 9\<rparr> 0
            (Some \<lparr>districts = [], performance = []\<rparr>) = Inr db1
         \<and> initDatabase \<lparr>getFullYear = 2026, getMonth = 9\<rparr> 5 (Some db1) = Inr db1
         \<and> distinct (map code (districts db1))
         \<and> distinct (map perf_key (performance db1))"
proof -
  obtain db1 where db1: "initDatabase \<lparr>getFullYear = 2026, getMonth = 9\<rparr> 0
            (Some \<lparr>districts = [], performance = []\<rparr>) = Inr db1"
    using initDatabase_ok[of "\<lparr>getFullYear = 2026, getMonth = 9\<rparr>" 0
        "\<lparr>districts = [], performance = []\<rparr>"] by auto
  note t = initDatabase_idempotent[of "\<lparr>getFullYear = 2026, getMonth = 9\<rparr>" 0
      "Some \<lparr>districts = [], performance = []\<rparr>" db1 5, rule_format, OF db1]
  have "initDatabase \<lparr>getFullYear = 2026, getMonth = 9\<rparr> 5 (Some db1) = Inr db1"
    using t by blast
  moreover have "distinct (map code (districts db1))"
    "appendsOnlyNew [] (performance db1)"
    using t by auto
  ultimately show ?thesis
    using db1 unfolding appendsOnlyNew_def by auto
qed

lemma insertPerformance_rows:
  "insertPerformance r rows = Inr rows' \<Longrightarrow> set rows' \<subseteq> insert r (set rows)"
  by (auto simp: insertPerformance_def split: if_splits)

lemma backfillDistrict_rows:
  "backfillDistrict now stamp c is rows = Inr rows' \<Longrightarrow>
   set rows' \<subseteq> set rows \<union> (\<lambda>i. backfillRow now stamp c i) ` set is"
proof (induction "is" arbitrary: rows)
  case Nil
  then show ?case by simp
next
  case (Cons i "is")
  obtain r1 where r1: "insertPerformance (backfillRow now stamp c i) rows = Inr r1"
    and rest: "backfillDistrict now stamp c is r1 = Inr rows'"
    using Cons.prems by (auto split: sum.splits)
  show ?case
    using Cons.IH[OF rest] insertPerformance_rows[OF r1] by auto
qed

lemma backfill_rows:
  "backfill now stamp cs rows = Inr rows' \<Longrightarrow>
   set rows' \<subseteq> set rows \<union> {backfillRow now stamp c i | c i. c \<in> set cs \<and> i \<in> set loopIndices}"
proof (induction cs arbitrary: rows)
  case Nil
  then show ?case by simp
next
  case (Cons c cs)
  obtain r1 where r1: "backfillDistrict now stamp c loopIndices rows = Inr r1"
    and rest: "backfill now stamp cs r1 = Inr rows'"
    using Cons.prems by (auto split: sum.splits)
  show ?case
  proof
    fix x
    assume "x \<in> set rows'"
    then consider "x \<in> set r1"
      | "\<exists>c' i. x = backfillRow now stamp c' i \<and> c' \<in> set cs \<and> i \<in> set loopIndices"
      using Cons.IH[OF rest] by blast
    then show "x \<in> set rows \<union>
        {backfillRow now stamp ca i | ca i. ca \<in> set (c # cs) \<and> i \<in> set loopIndices}"
    proof cases
      case 1
      then have "x \<in> set rows \<or> (\<exists>i \<in> set loopIndices. x = backfillRow now stamp c i)"
        using backfillDistrict_rows[OF r1] by blast
      then show ?thesis by auto
    next
      case 2
      then show ?thesis by auto
    qed
  qed
qed

text \<open>
  C8 as stated fails when the month has changed between the two runs: a first run in
  October 2026 on empty tables and a second run in November 2026 both succeed, and the
  second adds the November rows.
\<close>

theorem initDatabase_later_run_counterexample:
  "\<exists>db1 db2.
     initDatabase \<lparr>getFullYear = 2026, getMonth = 9\<rparr> 0
       (Some \<lparr>districts = [], performance = []\<rparr>) = Inr db1
     \<and> initDatabase \<lparr>getFullYear = 2026, getMonth = 10\<rparr> 1 (Some db1) = Inr db2
     \<and> db2 \<noteq> db1"
proof -
  let ?oct = "\<lparr>getFullYear = 2026, getMonth = 9\<rparr>"
  let ?nov = "\<lparr>getFullYear = 2026, getMonth = 10\<rparr>"
  obtain db1 where db1: "initDatabase ?oct 0 (Some \<lparr>districts = [], performance = []\<rparr>) = Inr db1"
    using initDatabase_ok[of ?oct 0 "\<lparr>districts = [], performance = []\<rparr>"] by auto
  obtain db2 where db2: "initDatabase ?nov 1 (Some db1) = Inr db2"
    using initDatabase_ok[of ?nov 1 db1] by auto
  note first = initDatabase_Inr[OF db1]
  note second = initDatabase_Inr[OF db2]
  have "code ` set (districts db1) = code ` set MAHARASHTRA_DISTRICTS"
    using first(1) by (simp add: fold_insertDistrict_codes)
  then have "js ''KOL'' \<in> code ` set (districts db1)"
    by (simp add: MAHARASHTRA_DISTRICTS_def)
  then have kol: "js ''KOL'' \<in> set (map code (districts db2))"
    using second(1) by (simp add: fold_insertDistrict_codes)
  have "perf_key (backfillRow ?nov 1 (js ''KOL'') 0) \<in> set (map perf_key (performance db2))"
  proof -
    have "\<forall>c \<in> set (map code (districts db2)). \<forall>i \<in> set loopIndices.
        perf_key (backfillRow ?nov 1 c i) \<in> set (map perf_key (performance db2))"
      using backfill_Inr[OF second(2)] by blast
    moreover have "(0::int) \<in> set loopIndices"
      by (simp add: loopIndices_def)
    ultimately show ?thesis
      using kol by blast
  qed
  then obtain r where r: "r \<in> set (performance db2)"
    "perf_key r = perf_key (backfillRow ?nov 1 (js ''KOL'') 0)"
    by auto
  have "r \<notin> set (performance db1)"
  proof
    assume "r \<in> set (performance db1)"
    then obtain c i where "r = backfillRow ?oct 0 c i" "i \<in> set loopIndices"
      using backfill_rows[OF first(2)] by auto
    then show False
      using r(2) by (auto simp: loopIndices_def perf_key_def backfillRow_def newDate_def Let_def)
  qed
  then have "db2 \<noteq> db1"
    using r(1) by auto
  then show ?thesis
    using db1 db2 by blast
qed

section \<open>POST /api/location-to-district\<close>

lemma pi_rough: "3 < pi" "pi < 315 / 100"
  using pi_bounds by simp_all

lemma sin_sq_le: "sin x * sin x \<le> x * x" for x :: real
proof -
  have "\<bar>sin x\<bar> \<le> \<bar>x\<bar>" by (rule abs_sin_x_le_abs_x)
  then have "\<bar>sin x\<bar> * \<bar>sin x\<bar> \<le> \<bar>x\<bar> * \<bar>x\<bar>"
    by (intro mult_mono) simp_all
  then show ?thesis by simp
qed

lemma sin_ge_half:
  fixes x :: real
  assumes "0 \<le> x" "x \<le> 1"
  shows "x / 2 \<le> sin x"
proof -
  have "(\<Sum>i<2 * 1. (- 1) ^ i * (x ^ (2 * i + 1) / fact (2 * i + 1))) \<le> sin x"
    using assms by (rule sin_partial_sums(1))
  then have "x - x ^ 3 / 6 \<le> sin x"
    by (simp add: numeral_eq_Suc)
  moreover have "x ^ 3 \<le> x"
    using assms power_decreasing[of 1 3 x] by simp
  ultimately show ?thesis using assms by linarith
qed

lemma sin_sq_ge:
  fixes x :: real
  assumes "l \<le> \<bar>x\<bar>" "\<bar>x\<bar> \<le> 1" "0 \<le> l"
  shows "(l / 2) * (l / 2) \<le> sin x * sin x"
proof -
  have "\<bar>x\<bar> / 2 \<le> sin \<bar>x\<bar>"
    using assms by (intro sin_ge_half) simp_all
  then have "l / 2 \<le> sin \<bar>x\<bar>" using assms by linarith
  then have "(l / 2) * (l / 2) \<le> sin \<bar>x\<bar> * sin \<bar>x\<bar>"
    using assms by (intro mult_mono) simp_all
  also have "sin \<bar>x\<bar> * sin \<bar>x\<bar> = sin x * sin x"
    by (cases "0 \<le> x") simp_all
  finally show ?thesis .
qed

lemma cos_ge_quadratic: "1 - x * x / 2 \<le> cos x" for x :: real
proof -
  have "cos x = cos (2 * (x / 2))" by simp
  also have "\<dots> = 1 - 2 * (sin (x / 2))\<^sup>2"
    by (rule cos_double_sin)
  finally have "cos x = 1 - 2 * (sin (x / 2) * sin (x / 2))"
    by (simp add: power2_eq_square)
  moreover have "sin (x / 2) * sin (x / 2) \<le> (x / 2) * (x / 2)"
    by (rule sin_sq_le)
  ultimately show ?thesis by simp
qed

lemma haversine_a_upper:
  assumes "\<bar>lat2 - lat1\<bar> \<le> u" "\<bar>lng2 - lng1\<bar> \<le> v"
  shows "haversine_a lat1 lng1 lat2 lng2 \<le> (u * pi / 360) * (u * pi / 360) + (v * pi / 360) * (v * pi / 360)"
proof -
  let ?x = "(lat2 - lat1) * pi / 180 / 2"
  let ?y = "(lng2 - lng1) * pi / 180 / 2"
  have "\<bar>lat2 - lat1\<bar> * pi / 360 \<le> u * pi / 360"
    using assms(1) by (intro divide_right_mono mult_right_mono) simp_all
  then have ax: "\<bar>?x\<bar> \<le> u * pi / 360"
    by (simp add: abs_mult)
  have "\<bar>lng2 - lng1\<bar> * pi / 360 \<le> v * pi / 360"
    using assms(2) by (intro divide_right_mono mult_right_mono) simp_all
  then have ay: "\<bar>?y\<bar> \<le> v * pi / 360"
    by (simp add: abs_mult)
  have "sin ?x * sin ?x \<le> ?x * ?x" by (rule sin_sq_le)
  also have "\<dots> = \<bar>?x\<bar> * \<bar>?x\<bar>" by simp
  also have "\<dots> \<le> (u * pi / 360) * (u * pi / 360)"
    using ax by (intro mult_mono) simp_all
  finally have t1: "sin ?x * sin ?x \<le> (u * pi / 360) * (u * pi / 360)" .
  have "sin ?y * sin ?y \<le> ?y * ?y" by (rule sin_sq_le)
  also have "\<dots> = \<bar>?y\<bar> * \<bar>?y\<bar>" by simp
  also have "\<dots> \<le> (v * pi / 360) * (v * pi / 360)"
    using ay by (intro mult_mono) simp_all
  finally have sy: "sin ?y * sin ?y \<le> (v * pi / 360) * (v * pi / 360)" .
  have "\<bar>cos (lat1 * pi / 180) * cos (lat2 * pi / 180)\<bar> \<le> 1 * 1"
    unfolding abs_mult by (intro mult_mono) simp_all
  then have c: "cos (lat1 * pi / 180) * cos (lat2 * pi / 180) \<le> 1" by simp
  have "cos (lat1 * pi / 180) * cos (lat2 * pi / 180) * (sin ?y * sin ?y) \<le> 1 * (sin ?y * sin ?y)"
    using c by (intro mult_right_mono) simp_all
  then have t2: "cos (lat1 * pi / 180) * cos (lat2 * pi / 180) * sin ?y * sin ?y
      \<le> (v * pi / 360) * (v * pi / 360)"
    using sy by (simp add: mult.assoc)
  show ?thesis
    unfolding haversine_a_def Let_def using t1 t2 by linarith
qed

lemma haversine_a_lower_lat:
  assumes "0 \<le> cos (lat1 * pi / 180)" "0 \<le> cos (lat2 * pi / 180)"
    and "l \<le> \<bar>lat2 - lat1\<bar>" "\<bar>lat2 - lat1\<bar> \<le> 100" "0 \<le> l"
  shows "(l * pi / 720) * (l * pi / 720) \<le> haversine_a lat1 lng1 lat2 lng2"
proof -
  let ?x = "(lat2 - lat1) * pi / 180 / 2"
  let ?y = "(lng2 - lng1) * pi / 180 / 2"
  have ax: "\<bar>?x\<bar> = \<bar>lat2 - lat1\<bar> * pi / 360"
    by (simp add: abs_mult)
  have lo: "l * pi / 360 \<le> \<bar>?x\<bar>"
    unfolding ax using assms(3) by (simp add: field_simps)
  have hi: "\<bar>?x\<bar> \<le> 1"
    unfolding ax using assms(4) pi_rough(2) mult_mono[of "\<bar>lat2 - lat1\<bar>" 100 pi "315 / 100"]
    by simp
  have "(l * pi / 360 / 2) * (l * pi / 360 / 2) \<le> sin ?x * sin ?x"
    using lo hi assms(5) by (intro sin_sq_ge) simp_all
  then have t1: "(l * pi / 720) * (l * pi / 720) \<le> sin ?x * sin ?x" by simp
  have "0 \<le> cos (lat1 * pi / 180) * cos (lat2 * pi / 180) * (sin ?y * sin ?y)"
    using assms(1,2) by simp
  then have t2: "0 \<le> cos (lat1 * pi / 180) * cos (lat2 * pi / 180) * sin ?y * sin ?y"
    by (simp add: mult.assoc)
  show ?thesis
    unfolding haversine_a_def Let_def using t1 t2 by linarith
qed

lemma haversine_a_lower_lng:
  assumes "1 / 2 \<le> cos (lat1 * pi / 180)" "1 / 2 \<le> cos (lat2 * pi / 180)"
    and "l \<le> \<bar>lng2 - lng1\<bar>" "\<bar>lng2 - lng1\<bar> \<le> 100" "0 \<le> l"
  shows "(l * pi / 1440) * (l * pi / 1440) \<le> haversine_a lat1 lng1 lat2 lng2"
proof -
  let ?x = "(lat2 - lat1) * pi / 180 / 2"
  let ?y = "(lng2 - lng1) * pi / 180 / 2"
  have ay: "\<bar>?y\<bar> = \<bar>lng2 - lng1\<bar> * pi / 360"
    by (simp add: abs_mult)
  have lo: "l * pi / 360 \<le> \<bar>?y\<bar>"
    unfolding ay using assms(3) by (simp add: field_simps)
  have hi: "\<bar>?y\<bar> \<le> 1"
    unfolding ay using assms(4) pi_rough(2) mult_mono[of "\<bar>lng2 - lng1\<bar>" 100 pi "315 / 100"]
    by simp
  have "(l * pi / 360 / 2) * (l * pi / 360 / 2) \<le> sin ?y * sin ?y"
    using lo hi assms(5) by (intro sin_sq_ge) simp_all
  then have s: "(l * pi / 720) * (l * pi / 720) \<le> sin ?y * sin ?y" by simp
  have c1: "0 \<le> cos (lat1 * pi / 180)" using assms(1) by linarith
  have cc: "(1 / 2) * (1 / 2) \<le> cos (lat1 * pi / 180) * cos (lat2 * pi / 180)"
    by (rule mult_mono[OF assms(1) assms(2) c1]) simp
  have c0: "0 \<le> cos (lat1 * pi / 180) * cos (lat2 * pi / 180)"
    using cc by linarith
  have l0: "0 \<le> (l * pi / 720) * (l * pi / 720)" by simp
  have "(1 / 2) * (1 / 2) * ((l * pi / 720) * (l * pi / 720))
      \<le> cos (lat1 * pi / 180) * cos (lat2 * pi / 180) * (sin ?y * sin ?y)"
    by (rule mult_mono[OF cc s c0 l0])
  then have t2: "(l * pi / 1440) * (l * pi / 1440)
      \<le> cos (lat1 * pi / 180) * cos (lat2 * pi / 180) * sin ?y * sin ?y"
    by (simp add: mult.assoc)
  have t1: "0 \<le> sin ?x * sin ?x" by simp
  show ?thesis
    unfolding haversine_a_def Let_def using t1 t2 by linarith
qed

lemma cos_degrees_ge_half:
  assumes "\<bar>t\<bar> \<le> 30"
  shows "1 / 2 \<le> cos (t * pi / 180)"
proof -
  define x where "x = t * pi / 180"
  have "\<bar>t\<bar> * pi \<le> 30 * (315 / 100)"
    using assms pi_rough(2) by (intro mult_mono) simp_all
  then have ax: "\<bar>x\<bar> \<le> 525 / 1000"
    by (simp add: x_def abs_mult mult.commute)
  have "\<bar>x\<bar> * \<bar>x\<bar> \<le> (525 / 1000) * (525 / 1000)"
    using ax by (intro mult_mono) simp_all
  then have xx: "x * x \<le> 275625 / 1000000"
    by simp
  have "1 - x * x / 2 \<le> cos x"
    by (rule cos_ge_quadratic)
  then have "1 / 2 \<le> cos x"
    using xx by linarith
  then show ?thesis
    unfolding x_def .
qed

lemma square_scaled_pi_lower:
  assumes "0 \<le> l"
  shows "(l * 3 / k) * (l * 3 / k) \<le> (l * pi / k) * (l * pi / k)"
proof -
  have "\<bar>l * 3 / k\<bar> \<le> \<bar>l * pi / k\<bar>"
    unfolding abs_divide abs_mult using pi_rough(1) assms
    by (intro divide_right_mono mult_left_mono) simp_all
  then have "\<bar>l * 3 / k\<bar> * \<bar>l * 3 / k\<bar> \<le> \<bar>l * pi / k\<bar> * \<bar>l * pi / k\<bar>"
    by (intro mult_mono) simp_all
  then show ?thesis by simp
qed

lemma square_scaled_pi_upper:
  assumes "0 \<le> u" "0 < k"
  shows "(u * pi / k) * (u * pi / k) \<le> (u * (315 / 100) / k) * (u * (315 / 100) / k)"
proof -
  have "u * pi / k \<le> u * (315 / 100) / k"
    using pi_rough(2) assms by (intro divide_right_mono mult_left_mono) simp_all
  moreover have "0 \<le> u * pi / k"
    using assms by simp
  ultimately show ?thesis
    by (intro mult_mono) simp_all
qed

lemma haversine_a_far:
  assumes "\<bar>lat1\<bar> \<le> 30" "\<bar>lat2\<bar> \<le> 30" "\<bar>lat2 - lat1\<bar> \<le> 10" "\<bar>lng2 - lng1\<bar> \<le> 10"
    and "1 / 2 \<le> \<bar>lat2 - lat1\<bar> \<or> 8 / 10 \<le> \<bar>lng2 - lng1\<bar>"
  shows "1 / 10 ^ 6 \<le> haversine_a lat1 lng1 lat2 lng2 \<and> haversine_a lat1 lng1 lat2 lng2 \<le> 1 / 2"
proof
  note c1 = cos_degrees_ge_half[OF assms(1)]
  note c2 = cos_degrees_ge_half[OF assms(2)]
  show "1 / 10 ^ 6 \<le> haversine_a lat1 lng1 lat2 lng2"
    using assms(5)
  proof
    assume l: "1 / 2 \<le> \<bar>lat2 - lat1\<bar>"
    have "(1 / 10 ^ 6 :: real) \<le> ((1 / 2) * 3 / 720) * ((1 / 2) * 3 / 720)" by simp
    also have "\<dots> \<le> ((1 / 2) * pi / 720) * ((1 / 2) * pi / 720)"
      by (rule square_scaled_pi_lower) simp
    also have "\<dots> \<le> haversine_a lat1 lng1 lat2 lng2"
      using c1 c2 l assms(3) by (intro haversine_a_lower_lat) simp_all
    finally show ?thesis .
  next
    assume l: "8 / 10 \<le> \<bar>lng2 - lng1\<bar>"
    have "(1 / 10 ^ 6 :: real) \<le> ((8 / 10) * 3 / 1440) * ((8 / 10) * 3 / 1440)" by simp
    also have "\<dots> \<le> ((8 / 10) * pi / 1440) * ((8 / 10) * pi / 1440)"
      by (rule square_scaled_pi_lower) simp
    also have "\<dots> \<le> haversine_a lat1 lng1 lat2 lng2"
      using c1 c2 l assms(4) by (intro haversine_a_lower_lng) simp_all
    finally show ?thesis .
  qed
  have "haversine_a lat1 lng1 lat2 lng2
      \<le> (10 * pi / 360) * (10 * pi / 360) + (10 * pi / 360) * (10 * pi / 360)"
    using assms(3,4) by (rule haversine_a_upper)
  also have "(10 * pi / 360) * (10 * pi / 360) \<le> (10 * (315 / 100) / 360) * (10 * (315 / 100) / 360)"
    by (rule square_scaled_pi_upper) simp_all
  finally show "haversine_a lat1 lng1 lat2 lng2 \<le> 1 / 2"
    by simp
qed

lemma haversine_a_near:
  assumes "\<bar>lat1\<bar> \<le> 30" "\<bar>lat2\<bar> \<le> 30"
    and "\<bar>lat2 - lat1\<bar> \<le> 4 / 10 ^ 4" "\<bar>lng2 - lng1\<bar> \<le> 67 / 10 ^ 4"
  shows "0 \<le> haversine_a lat1 lng1 lat2 lng2 \<and> haversine_a lat1 lng1 lat2 lng2 \<le> 4 / 10 ^ 9"
proof
  note c1 = cos_degrees_ge_half[OF assms(1)]
  note c2 = cos_degrees_ge_half[OF assms(2)]
  have "0 * pi / 720 * (0 * pi / 720) \<le> haversine_a lat1 lng1 lat2 lng2"
    using c1 c2 assms(3) by (intro haversine_a_lower_lat) simp_all
  then show "0 \<le> haversine_a lat1 lng1 lat2 lng2" by simp
  have "haversine_a lat1 lng1 lat2 lng2
      \<le> ((4 / 10 ^ 4) * pi / 360) * ((4 / 10 ^ 4) * pi / 360)
        + ((67 / 10 ^ 4) * pi / 360) * ((67 / 10 ^ 4) * pi / 360)"
    using assms(3,4) by (rule haversine_a_upper)
  moreover have "((4 / 10 ^ 4) * pi / 360) * ((4 / 10 ^ 4) * pi / 360)
      \<le> ((4 / 10 ^ 4) * (315 / 100) / 360) * ((4 / 10 ^ 4) * (315 / 100) / 360)"
    by (rule square_scaled_pi_upper) simp_all
  moreover have "((67 / 10 ^ 4) * pi / 360) * ((67 / 10 ^ 4) * pi / 360)
      \<le> ((67 / 10 ^ 4) * (315 / 100) / 360) * ((67 / 10 ^ 4) * (315 / 100) / 360)"
    by (rule square_scaled_pi_upper) simp_all
  ultimately show "haversine_a lat1 lng1 lat2 lng2 \<le> 4 / 10 ^ 9"
    by simp
qed

lemma getDistance_value:
  assumes "0 \<le> haversine_a lat1 lng1 lat2 lng2" "haversine_a lat1 lng1 lat2 lng2 < 1"
  shows "getDistance lat1 lng1 lat2 lng2 =
    Some (6371 * (2 * arctan (sqrt (haversine_a lat1 lng1 lat2 lng2)
                              / sqrt (1 - haversine_a lat1 lng1 lat2 lng2))))"
  using assms by (simp add: getDistance_def atan2_def Let_def)

lemma arctan_cubic_lower:
  fixes t :: real
  assumes "0 \<le> t" "t \<le> 1"
  shows "t - t ^ 3 / 3 \<le> arctan t"
proof -
  have "(\<Sum>i<2 * 1. (- 1) ^ i * (1 / real (i * 2 + 1) * t ^ (i * 2 + 1))) \<le> arctan t"
    using assms by (rule arctan_partial_sums(1))
  then show ?thesis
    by (simp add: numeral_eq_Suc)
qed

lemma getDistance_small:
  assumes "0 \<le> haversine_a p q r s" "haversine_a p q r s \<le> 4 / 10 ^ 9"
  shows "\<exists>x. getDistance p q r s = Some x \<and> 0 \<le> x \<and> x \<le> 3"
proof -
  define a where "a = haversine_a p q r s"
  have a: "0 \<le> a" "a \<le> 4 / 10 ^ 9"
    using assms by (simp_all add: a_def)
  have v: "getDistance p q r s = Some (6371 * (2 * arctan (sqrt a / sqrt (1 - a))))"
    unfolding a_def using assms by (intro getDistance_value) simp_all
  have "a \<le> (1 / 10 ^ 4)\<^sup>2"
    using a by (simp add: power2_eq_square)
  then have num: "sqrt a \<le> 1 / 10 ^ 4"
    by (intro real_le_lsqrt) simp_all
  have den: "1 / 2 \<le> sqrt (1 - a)"
    using a by (intro real_le_rsqrt) (simp add: power2_eq_square)
  have "sqrt a / sqrt (1 - a) \<le> (1 / 10 ^ 4) / (1 / 2)"
    using num den by (intro frac_le) simp_all
  then have t: "sqrt a / sqrt (1 - a) \<le> 2 / 10 ^ 4"
    by simp
  have t0: "0 \<le> sqrt a / sqrt (1 - a)"
    using a by simp
  have "arctan (sqrt a / sqrt (1 - a))
      \<le> (\<Sum>i<2 * 0 + 1. (- 1) ^ i * (1 / real (i * 2 + 1) * (sqrt a / sqrt (1 - a)) ^ (i * 2 + 1)))"
  proof (rule arctan_partial_sums(2))
    show "0 \<le> sqrt a / sqrt (1 - a)" by (rule t0)
    have "(2 / 10 ^ 4 :: real) \<le> 1" by simp
    then show "sqrt a / sqrt (1 - a) \<le> 1" using t by linarith
  qed
  then have "arctan (sqrt a / sqrt (1 - a)) \<le> sqrt a / sqrt (1 - a)"
    by simp
  then have up: "arctan (sqrt a / sqrt (1 - a)) \<le> 2 / 10 ^ 4"
    using t by linarith
  have lo: "0 \<le> arctan (sqrt a / sqrt (1 - a))"
    using t0 by simp
  show ?thesis
    unfolding v using up lo by simp
qed

lemma getDistance_large:
  assumes "1 / 10 ^ 6 \<le> haversine_a p q r s" "haversine_a p q r s \<le> 1 / 2"
  shows "\<exists>y. getDistance p q r s = Some y \<and> 11 \<le> y"
proof -
  define a where "a = haversine_a p q r s"
  have a: "1 / 10 ^ 6 \<le> a" "a \<le> 1 / 2"
    using assms by (simp_all add: a_def)
  have v: "getDistance p q r s = Some (6371 * (2 * arctan (sqrt a / sqrt (1 - a))))"
    unfolding a_def using assms by (intro getDistance_value) simp_all
  have num: "1 / 10 ^ 3 \<le> sqrt a"
    using a by (intro real_le_rsqrt) (simp add: power2_eq_square)
  have den: "sqrt (1 - a) \<le> 1"
    using a by (intro real_le_lsqrt) simp_all
  have pos: "0 < sqrt (1 - a)"
    using a by simp
  have "(1 / 10 ^ 3) / 1 \<le> sqrt a / sqrt (1 - a)"
    using num den pos by (intro frac_le) simp_all
  then have t: "1 / 10 ^ 3 \<le> sqrt a / sqrt (1 - a)"
    by simp
  have "(1 / 10 ^ 3 :: real) - (1 / 10 ^ 3) ^ 3 / 3 \<le> arctan (1 / 10 ^ 3)"
    by (rule arctan_cubic_lower) simp_all
  also have "\<dots> \<le> arctan (sqrt a / sqrt (1 - a))"
    using t by (simp only: arctan_le_iff)
  finally have "(1 / 10 ^ 3 :: real) - (1 / 10 ^ 3) ^ 3 / 3 \<le> arctan (sqrt a / sqrt (1 - a))" .
  moreover have "(9 / 10 ^ 4 :: real) \<le> 1 / 10 ^ 3 - (1 / 10 ^ 3) ^ 3 / 3"
    by (simp add: power3_eq_cube)
  ultimately have "9 / 10 ^ 4 \<le> arctan (sqrt a / sqrt (1 - a))"
    by linarith
  then show ?thesis
    unfolding v by simp
qed

lemma pune_within:
  "\<exists>x. getDistance 18.52 73.85 18.5204 73.8567 = Some x \<and> 0 \<le> x \<and> x \<le> 3"
proof -
  have "0 \<le> haversine_a 18.52 73.85 18.5204 73.8567 \<and>
      haversine_a 18.52 73.85 18.5204 73.8567 \<le> 4 / 10 ^ 9"
    by (rule haversine_a_near) simp_all
  then show ?thesis
    by (intro getDistance_small) simp_all
qed

lemma others_beyond:
  "\<forall>d \<in> set MAHARASHTRA_DISTRICTS.
     d \<noteq> \<lparr>name = js ''Pune'', lat = 18.5204, lng = 73.8567, code = js ''PUN''\<rparr> \<longrightarrow>
     (\<exists>y. getDistance 18.52 73.85 (lat d) (lng d) = Some y \<and> 11 \<le> y)"
proof -
  have far: "\<exists>y. getDistance 18.52 73.85 la lo = Some y \<and> 11 \<le> y"
    if "\<bar>la\<bar> \<le> 30" "\<bar>la - 18.52\<bar> \<le> 10" "\<bar>lo - 73.85\<bar> \<le> 10"
      "1 / 2 \<le> \<bar>la - 18.52\<bar> \<or> 8 / 10 \<le> \<bar>lo - 73.85\<bar>" for la lo :: real
  proof -
    have "1 / 10 ^ 6 \<le> haversine_a 18.52 73.85 la lo \<and> haversine_a 18.52 73.85 la lo \<le> 1 / 2"
      using that by (intro haversine_a_far) simp_all
    then show ?thesis
      by (intro getDistance_large) simp_all
  qed
  define P where "P d \<longleftrightarrow>
     (d \<noteq> \<lparr>name = js ''Pune'', lat = 18.5204, lng = 73.8567, code = js ''PUN''\<rparr> \<longrightarrow>
     (\<exists>y. getDistance 18.52 73.85 (lat d) (lng d) = Some y \<and> 11 \<le> y))" for d
  have P_far: "P \<lparr>name = n, lat = la, lng = lo, code = c\<rparr>"
    if "\<bar>la\<bar> \<le> 30" "\<bar>la - 18.52\<bar> \<le> 10" "\<bar>lo - 73.85\<bar> \<le> 10"
      "1 / 2 \<le> \<bar>la - 18.52\<bar> \<or> 8 / 10 \<le> \<bar>lo - 73.85\<bar>" for n la lo c
    unfolding P_def using far[OF that] by (simp del: of_rat_numeral_eq)
  have P_pune: "P \<lparr>name = js ''Pune'', lat = 18.5204, lng = 73.8567, code = js ''PUN''\<rparr>"
    unfolding P_def by blast
  have "\<forall>d \<in> set MAHARASHTRA_DISTRICTS. P d"
    unfolding MAHARASHTRA_DISTRICTS_def list.set ball_simps
    by (intro conjI P_pune TrueI; rule P_far; simp)
  then show ?thesis
    unfolding P_def .
qed

lemma nearest_scan:
  "nearest f p q ds (nd, md) = (rn, rm) \<Longrightarrow>
     ((rn, rm) = (nd, md) \<and>
      (\<forall>e \<in> set ds. \<forall>x. f p q (lat e) (lng e) = Some x \<longrightarrow> (\<exists>k. md = Some k \<and> k \<le> x)))
   \<or> (\<exists>before n after m.
        ds = before @ n # after \<and> rn = Some n \<and> rm = Some m \<and>
        f p q (lat n) (lng n) = Some m \<and>
        (\<forall>e \<in> set before. \<forall>x. f p q (lat e) (lng e) = Some x \<longrightarrow> m < x) \<and>
        (\<forall>e \<in> set after. \<forall>x. f p q (lat e) (lng e) = Some x \<longrightarrow> m \<le> x) \<and>
        (\<forall>k. md = Some k \<longrightarrow> m < k))"
proof (induction ds arbitrary: nd md)
  case Nil
  then show ?case by simp
next
  case (Cons d ds)
  let ?D = "\<lambda>e. f p q (lat e) (lng e)"
  show ?case
  proof (cases "?D d")
    case None
    then have r: "nearest f p q ds (nd, md) = (rn, rm)"
      using Cons.prems by simp
    from Cons.IH[OF r] show ?thesis
    proof
      assume "(rn, rm) = (nd, md) \<and>
        (\<forall>e \<in> set ds. \<forall>x. ?D e = Some x \<longrightarrow> (\<exists>k. md = Some k \<and> k \<le> x))"
      then have "(rn, rm) = (nd, md) \<and>
        (\<forall>e \<in> set (d # ds). \<forall>x. ?D e = Some x \<longrightarrow> (\<exists>k. md = Some k \<and> k \<le> x))"
        using None by simp
      then show ?thesis by (rule disjI1)
    next
      assume "\<exists>before n after m.
        ds = before @ n # after \<and> rn = Some n \<and> rm = Some m \<and> ?D n = Some m \<and>
        (\<forall>e \<in> set before. \<forall>x. ?D e = Some x \<longrightarrow> m < x) \<and>
        (\<forall>e \<in> set after. \<forall>x. ?D e = Some x \<longrightarrow> m \<le> x) \<and>
        (\<forall>k. md = Some k \<longrightarrow> m < k)"
      then obtain before n after m where b:
        "ds = before @ n # after" "rn = Some n" "rm = Some m" "?D n = Some m"
        "\<forall>e \<in> set before. \<forall>x. ?D e = Some x \<longrightarrow> m < x"
        "\<forall>e \<in> set after. \<forall>x. ?D e = Some x \<longrightarrow> m \<le> x"
        "\<forall>k. md = Some k \<longrightarrow> m < k"
        by blast
      have "d # ds = (d # before) @ n # after \<and> rn = Some n \<and> rm = Some m \<and> ?D n = Some m \<and>
        (\<forall>e \<in> set (d # before). \<forall>x. ?D e = Some x \<longrightarrow> m < x) \<and>
        (\<forall>e \<in> set after. \<forall>x. ?D e = Some x \<longrightarrow> m \<le> x) \<and>
        (\<forall>k. md = Some k \<longrightarrow> m < k)"
        using b None by simp
      then show ?thesis by blast
    qed
  next
    case (Some x)
    show ?thesis
    proof (cases "case md of None \<Rightarrow> True | Some k \<Rightarrow> x < k")
      case True
      then have r: "nearest f p q ds (Some d, Some x) = (rn, rm)"
        using Cons.prems Some by simp
      have below: "\<forall>k. md = Some k \<longrightarrow> x < k"
        using True by (simp split: option.splits)
      from Cons.IH[OF r] show ?thesis
      proof
        assume a: "(rn, rm) = (Some d, Some x) \<and>
          (\<forall>e \<in> set ds. \<forall>y. ?D e = Some y \<longrightarrow> (\<exists>k. Some x = Some k \<and> k \<le> y))"
        have "d # ds = [] @ d # ds \<and> rn = Some d \<and> rm = Some x \<and> ?D d = Some x \<and>
          (\<forall>e \<in> set []. \<forall>y. ?D e = Some y \<longrightarrow> x < y) \<and>
          (\<forall>e \<in> set ds. \<forall>y. ?D e = Some y \<longrightarrow> x \<le> y) \<and>
          (\<forall>k. md = Some k \<longrightarrow> x < k)"
          using a Some below by simp
        then show ?thesis by blast
      next
        assume "\<exists>before n after m.
          ds = before @ n # after \<and> rn = Some n \<and> rm = Some m \<and> ?D n = Some m \<and>
          (\<forall>e \<in> set before. \<forall>y. ?D e = Some y \<longrightarrow> m < y) \<and>
          (\<forall>e \<in> set after. \<forall>y. ?D e = Some y \<longrightarrow> m \<le> y) \<and>
          (\<forall>k. Some x = Some k \<longrightarrow> m < k)"
        then obtain before n after m where b:
          "ds = before @ n # after" "rn = Some n" "rm = Some m" "?D n = Some m"
          "\<forall>e \<in> set before. \<forall>y. ?D e = Some y \<longrightarrow> m < y"
          "\<forall>e \<in> set after. \<forall>y. ?D e = Some y \<longrightarrow> m \<le> y"
          "m < x"
          by blast
        have "\<forall>k. md = Some k \<longrightarrow> m < k"
          using below b(7) by fastforce
        then have "d # ds = (d # before) @ n # after \<and> rn = Some n \<and> rm = Some m \<and>
          ?D n = Some m \<and>
          (\<forall>e \<in> set (d # before). \<forall>y. ?D e = Some y \<longrightarrow> m < y) \<and>
          (\<forall>e \<in> set after. \<forall>y. ?D e = Some y \<longrightarrow> m \<le> y) \<and>
          (\<forall>k. md = Some k \<longrightarrow> m < k)"
          using b Some by simp
        then show ?thesis by blast
      qed
    next
      case False
      then obtain k where k: "md = Some k" "k \<le> x"
        by (cases md) auto
      have r: "nearest f p q ds (nd, md) = (rn, rm)"
        using Cons.prems Some False by simp
      from Cons.IH[OF r] show ?thesis
      proof
        assume "(rn, rm) = (nd, md) \<and>
          (\<forall>e \<in> set ds. \<forall>y. ?D e = Some y \<longrightarrow> (\<exists>k. md = Some k \<and> k \<le> y))"
        then have "(rn, rm) = (nd, md) \<and>
          (\<forall>e \<in> set (d # ds). \<forall>y. ?D e = Some y \<longrightarrow> (\<exists>k. md = Some k \<and> k \<le> y))"
          using Some k by simp
        then show ?thesis by (rule disjI1)
      next
        assume "\<exists>before n after m.
          ds = before @ n # after \<and> rn = Some n \<and> rm = Some m \<and> ?D n = Some m \<and>
          (\<forall>e \<in> set before. \<forall>y. ?D e = Some y \<longrightarrow> m < y) \<and>
          (\<forall>e \<in> set after. \<forall>y. ?D e = Some y \<longrightarrow> m \<le> y) \<and>
          (\<forall>k. md = Some k \<longrightarrow> m < k)"
        then obtain before n after m where b:
          "ds = before @ n # after" "rn = Some n" "rm = Some m" "?D n = Some m"
          "\<forall>e \<in> set before. \<forall>y. ?D e = Some y \<longrightarrow> m < y"
          "\<forall>e \<in> set after. \<forall>y. ?D e = Some y \<longrightarrow> m \<le> y"
          "\<forall>k. md = Some k \<longrightarrow> m < k"
          by blast
        have "m < x"
          using b(7) k by fastforce
        then have "d # ds = (d # before) @ n # after \<and> rn = Some n \<and> rm = Some m \<and>
          ?D n = Some m \<and>
          (\<forall>e \<in> set (d # before). \<forall>y. ?D e = Some y \<longrightarrow> m < y) \<and>
          (\<forall>e \<in> set after. \<forall>y. ?D e = Some y \<longrightarrow> m \<le> y) \<and>
          (\<forall>k. md = Some k \<longrightarrow> m < k)"
          using b Some by simp
        then show ?thesis by blast
      qed
    qed
  qed
qed

lemma nearest_first_minimum:
  assumes "\<exists>e \<in> set ds. f p q (lat e) (lng e) \<noteq> None"
  shows "\<exists>n m before after.
      fst (nearest f p q ds (None, None)) = Some n \<and> ds = before @ n # after \<and>
      f p q (lat n) (lng n) = Some m \<and>
      (\<forall>e \<in> set before. \<forall>x. f p q (lat e) (lng e) = Some x \<longrightarrow> m < x) \<and>
      (\<forall>e \<in> set after. \<forall>x. f p q (lat e) (lng e) = Some x \<longrightarrow> m \<le> x)"
proof -
  obtain rn rm where r: "nearest f p q ds (None, None) = (rn, rm)"
    by (cases "nearest f p q ds (None, None)")
  have "\<not> (\<forall>e \<in> set ds. \<forall>x. f p q (lat e) (lng e) = Some x \<longrightarrow>
      (\<exists>k. (None :: real option) = Some k \<and> k \<le> x))"
    using assms by auto
  then obtain before n after m where
    "ds = before @ n # after" "rn = Some n" "f p q (lat n) (lng n) = Some m"
    "\<forall>e \<in> set before. \<forall>x. f p q (lat e) (lng e) = Some x \<longrightarrow> m < x"
    "\<forall>e \<in> set after. \<forall>x. f p q (lat e) (lng e) = Some x \<longrightarrow> m \<le> x"
    using nearest_scan[OF r] by blast
  then show ?thesis
    using r by auto
qed

lemma nearest_all_NaN:
  assumes "\<forall>e \<in> set ds. f p q (lat e) (lng e) = None"
  shows "fst (nearest f p q ds (None, None)) = None"
proof -
  obtain rn rm where r: "nearest f p q ds (None, None) = (rn, rm)"
    by (cases "nearest f p q ds (None, None)")
  have "\<not> (\<exists>before n after m. ds = before @ n # after \<and> f p q (lat n) (lng n) = Some m)"
    using assms by auto
  then have "(rn, rm) = (None, None)"
    using nearest_scan[OF r] by blast
  then show ?thesis
    using r by simp
qed

lemma nearest_pune:
  assumes same: "set ds = set MAHARASHTRA_DISTRICTS"
    and close: "\<forall>e \<in> set ds. \<exists>x y. f 18.52 73.85 (lat e) (lng e) = Some x \<and>
      getDistance 18.52 73.85 (lat e) (lng e) = Some y \<and> \<bar>x - y\<bar> \<le> 1"
  shows "fst (nearest f 18.52 73.85 ds (None, None))
    = Some \<lparr>name = js ''Pune'', lat = 18.5204, lng = 73.8567, code = js ''PUN''\<rparr>"
proof -
  let ?p = "\<lparr>name = js ''Pune'', lat = 18.5204, lng = 73.8567, code = js ''PUN''\<rparr>"
  let ?D = "\<lambda>e. f 18.52 73.85 (lat e) (lng e)"
  let ?G = "\<lambda>e. getDistance 18.52 73.85 (lat e) (lng e)"
  have p: "?p \<in> set ds"
    unfolding same by (simp add: MAHARASHTRA_DISTRICTS_def)
  from close p obtain xp yp where cp: "?D ?p = Some xp" "?G ?p = Some yp" "\<bar>xp - yp\<bar> \<le> 1"
    by blast
  obtain y0 where "getDistance 18.52 73.85 18.5204 73.8567 = Some y0" "y0 \<le> 3"
    using pune_within by blast
  then have "yp \<le> 3"
    using cp(2) by simp
  then have xp: "xp \<le> 4"
    using cp(3) by linarith
  have far: "10 \<le> x" if e: "e \<in> set ds" and ne: "e \<noteq> ?p" and dx: "?D e = Some x" for e x
  proof -
    from close e obtain x' y where c: "?D e = Some x'" "?G e = Some y" "\<bar>x' - y\<bar> \<le> 1"
      by blast
    have "e \<in> set MAHARASHTRA_DISTRICTS"
      using e same by simp
    then obtain y' where "?G e = Some y'" "11 \<le> y'"
      using others_beyond ne by blast
    then have "11 \<le> y"
      using c(2) by simp
    moreover have "x' = x"
      using c(1) dx by simp
    ultimately show ?thesis
      using c(3) by linarith
  qed
  have "\<exists>e \<in> set ds. ?D e \<noteq> None"
  proof (rule bexI)
    show "?D ?p \<noteq> None" using cp(1) by simp
    show "?p \<in> set ds" by (rule p)
  qed
  then obtain n m before after where n:
    "fst (nearest f 18.52 73.85 ds (None, None)) = Some n" "ds = before @ n # after"
    "?D n = Some m"
    "\<forall>e \<in> set before. \<forall>x. ?D e = Some x \<longrightarrow> m < x"
    "\<forall>e \<in> set after. \<forall>x. ?D e = Some x \<longrightarrow> m \<le> x"
    using nearest_first_minimum[of ds f "18.52" "73.85"] by blast
  have nin: "n \<in> set ds"
    using n(2) by simp
  have mem: "z \<in> set before \<or> z = n \<or> z \<in> set after" if "z \<in> set ds" for z
    using that unfolding n(2) by auto
  from mem[OF p] have le: "m \<le> xp"
  proof (elim disjE)
    assume "?p \<in> set before"
    then have "m < xp" using n(4) cp(1) by blast
    then show ?thesis by simp
  next
    assume "?p = n"
    then have "Some m = Some xp" using n(3) cp(1) by simp
    then show ?thesis by simp
  next
    assume "?p \<in> set after"
    then show ?thesis using n(5) cp(1) by blast
  qed
  have "n = ?p"
  proof (rule ccontr)
    assume "n \<noteq> ?p"
    then have "10 \<le> m"
      using far[OF nin _ n(3)] by simp
    then show False
      using le xp by simp
  qed
  then show ?thesis
    using n(1) by simp
qed

lemma postLocation_nonzero:
  "qlat \<noteq> 0 \<Longrightarrow> qlng \<noteq> 0 \<Longrightarrow>
   postLocationToDistrict f cache pool \<lparr>body_lat = Some qlat, body_lng = Some qlng\<rparr>
     = locateNearest f cache pool qlat qlng"
  by (simp add: postLocationToDistrict_def falsy_def)

lemma exact_distances_defined:
  "\<forall>e \<in> set MAHARASHTRA_DISTRICTS. \<exists>y. getDistance 18.52 73.85 (lat e) (lng e) = Some y"
proof
  fix e
  assume e: "e \<in> set MAHARASHTRA_DISTRICTS"
  show "\<exists>y. getDistance 18.52 73.85 (lat e) (lng e) = Some y"
  proof (cases "e = \<lparr>name = js ''Pune'', lat = 18.5204, lng = 73.8567, code = js ''PUN''\<rparr>")
    case True
    then show ?thesis using pune_within by auto
  next
    case False
    then show ?thesis using others_beyond e by blast
  qed
qed

text \<open>
  C4, amended. For a body whose coordinates are both present and not 0: with a cached
  district list, or with the list the query returns (the static list when it returns no
  row), POST /api/location-to-district answers 200 with the result of the scan over
  that list; when the cache is empty and the query fails it answers 500. When some
  district of the list has a computed distance that is a number, the scan returns the
  first district in list order whose computed distance is least: every district before
  it is strictly farther or has the distance NaN, every district after it is no
  nearer. When every computed distance is NaN the scan returns null. For any list
  with the districts of the static list, and computed distances within 1 km of the
  exact ones, the point (18.52, 73.85) yields Pune.
\<close>

theorem nearest_district:
  "(qlat \<noteq> 0 \<and> qlng \<noteq> 0 \<longrightarrow>
      (cache (js ''districts'') = Some (Districts ds) \<longrightarrow>
         snd (postLocationToDistrict computedDistance cache pool
                \<lparr>body_lat = Some qlat, body_lng = Some qlng\<rparr>)
           = \<lparr>status = 200,
              body = Nearest (fst (nearest computedDistance qlat qlng ds (None, None)))\<rparr>)
    \<and> (cache (js ''districts'') = None \<and> pool = Some d \<longrightarrow>
         snd (postLocationToDistrict computedDistance cache pool
                \<lparr>body_lat = Some qlat, body_lng = Some qlng\<rparr>)
           = \<lparr>status = 200,
              body = Nearest (fst (nearest computedDistance qlat qlng
                (if districts d \<noteq> [] then districts d else MAHARASHTRA_DISTRICTS)
                (None, None)))\<rparr>)
    \<and> (cache (js ''districts'') = None \<and> pool = None \<longrightarrow>
         status (snd (postLocationToDistrict computedDistance cache pool
           \<lparr>body_lat = Some qlat, body_lng = Some qlng\<rparr>)) = 500))
   \<and> ((\<exists>e \<in> set ds. computedDistance qlat qlng (lat e) (lng e) \<noteq> None) \<longrightarrow>
        (\<exists>n m before after.
           fst (nearest computedDistance qlat qlng ds (None, None)) = Some n \<and>
           ds = before @ n # after \<and>
           computedDistance qlat qlng (lat n) (lng n) = Some m \<and>
           (\<forall>e \<in> set before. \<forall>x. computedDistance qlat qlng (lat e) (lng e) = Some x \<longrightarrow> m < x) \<and>
           (\<forall>e \<in> set after. \<forall>x. computedDistance qlat qlng (lat e) (lng e) = Some x \<longrightarrow> m \<le> x)))
   \<and> ((\<forall>e \<in> set ds. computedDistance qlat qlng (lat e) (lng e) = None) \<longrightarrow>
        fst (nearest computedDistance qlat qlng ds (None, None)) = None)
   \<and> (set ds = set MAHARASHTRA_DISTRICTS \<and>
       (\<forall>e \<in> set ds. \<exists>x y. computedDistance 18.52 73.85 (lat e) (lng e) = Some x \<and>
          getDistance 18.52 73.85 (lat e) (lng e) = Some y \<and> \<bar>x - y\<bar> \<le> 1) \<longrightarrow>
        fst (nearest computedDistance 18.52 73.85 ds (None, None))
          = Some \<lparr>name = js ''Pune'', lat = 18.5204, lng = 73.8567, code = js ''PUN''\<rparr>)"
proof (intro conjI impI)
  assume nz: "qlat \<noteq> 0 \<and> qlng \<noteq> 0" and c: "cache (js ''districts'') = Some (Districts ds)"
  show "snd (postLocationToDistrict computedDistance cache pool
                \<lparr>body_lat = Some qlat, body_lng = Some qlng\<rparr>)
           = \<lparr>status = 200,
              body = Nearest (fst (nearest computedDistance qlat qlng ds (None, None)))\<rparr>"
    using nz c by (simp add: postLocation_nonzero locateNearest_def json_def)
next
  assume nz: "qlat \<noteq> 0 \<and> qlng \<noteq> 0" and c: "cache (js ''districts'') = None \<and> pool = Some d"
  show "snd (postLocationToDistrict computedDistance cache pool
                \<lparr>body_lat = Some qlat, body_lng = Some qlng\<rparr>)
           = \<lparr>status = 200,
              body = Nearest (fst (nearest computedDistance qlat qlng
                (if districts d \<noteq> [] then districts d else MAHARASHTRA_DISTRICTS)
                (None, None)))\<rparr>"
    using nz c by (simp add: postLocation_nonzero locateNearest_def json_def Let_def)
next
  assume nz: "qlat \<noteq> 0 \<and> qlng \<noteq> 0" and c: "cache (js ''districts'') = None \<and> pool = None"
  show "status (snd (postLocationToDistrict computedDistance cache pool
           \<lparr>body_lat = Some qlat, body_lng = Some qlng\<rparr>)) = 500"
    using nz c by (simp add: postLocation_nonzero locateNearest_def)
next
  assume "\<exists>e \<in> set ds. computedDistance qlat qlng (lat e) (lng e) \<noteq> None"
  then show "\<exists>n m before after.
           fst (nearest computedDistance qlat qlng ds (None, None)) = Some n \<and>
           ds = before @ n # after \<and>
           computedDistance qlat qlng (lat n) (lng n) = Some m \<and>
           (\<forall>e \<in> set before. \<forall>x. computedDistance qlat qlng (lat e) (lng e) = Some x \<longrightarrow> m < x) \<and>
           (\<forall>e \<in> set after. \<forall>x. computedDistance qlat qlng (lat e) (lng e) = Some x \<longrightarrow> m \<le> x)"
    by (rule nearest_first_minimum)
next
  assume "\<forall>e \<in> set ds. computedDistance qlat qlng (lat e) (lng e) = None"
  then show "fst (nearest computedDistance qlat qlng ds (None, None)) = None"
    by (rule nearest_all_NaN)
next
  assume "set ds = set MAHARASHTRA_DISTRICTS \<and>
       (\<forall>e \<in> set ds. \<exists>x y. computedDistance 18.52 73.85 (lat e) (lng e) = Some x \<and>
          getDistance 18.52 73.85 (lat e) (lng e) = Some y \<and> \<bar>x - y\<bar> \<le> 1)"
  then show "fst (nearest computedDistance 18.52 73.85 ds (None, None))
          = Some \<lparr>name = js ''Pune'', lat = 18.5204, lng = 73.8567, code = js ''PUN''\<rparr>"
    using nearest_pune[of ds computedDistance] by simp
qed

theorem nearest_district_witness:
  "snd (postLocationToDistrict getDistance Map.empty (Some \<lparr>districts = [], performance = []\<rparr>)
          \<lparr>body_lat = Some 18.52, body_lng = Some 73.85\<rparr>)
     = \<lparr>status = 200,
        body = Nearest (Some \<lparr>name = js ''Pune'', lat = 18.5204, lng = 73.8567, code = js ''PUN''\<rparr>)\<rparr>
   \<and> snd (postLocationToDistrict (\<lambda>a b c d. map_option (\<lambda>x. x + 1 / 2) (getDistance a b c d))
          [js ''districts'' \<mapsto> Districts (rev MAHARASHTRA_DISTRICTS)] None
          \<lparr>body_lat = Some 18.52, body_lng = Some 73.85\<rparr>)
     = \<lparr>status = 200,
        body = Nearest (Some \<lparr>name = js ''Pune'', lat = 18.5204, lng = 73.8567, code = js ''PUN''\<rparr>)\<rparr>
   \<and> fst (nearest (\<lambda>a b c d. None) 18.52 73.85 MAHARASHTRA_DISTRICTS (None, None)) = None"
proof -
  let ?g = "\<lambda>a b c d. map_option (\<lambda>x. x + 1 / 2) (getDistance a b c d)"
  have a: "snd (postLocationToDistrict getDistance Map.empty
          (Some \<lparr>districts = [], performance = []\<rparr>)
          \<lparr>body_lat = Some 18.52, body_lng = Some 73.85\<rparr>)
     = \<lparr>status = 200,
        body = Nearest (fst (nearest getDistance 18.52 73.85 MAHARASHTRA_DISTRICTS (None, None)))\<rparr>"
    using nearest_district[where qlat = "18.52" and qlng = "73.85"
        and computedDistance = getDistance and cache = Map.empty
        and pool = "Some \<lparr>districts = [], performance = []\<rparr>"
        and d = "\<lparr>districts = [], performance = []\<rparr>", THEN conjunct1]
    by simp
  have b: "snd (postLocationToDistrict ?g
          [js ''districts'' \<mapsto> Districts (rev MAHARASHTRA_DISTRICTS)] None
          \<lparr>body_lat = Some 18.52, body_lng = Some 73.85\<rparr>)
     = \<lparr>status = 200,
        body = Nearest (fst (nearest ?g 18.52 73.85 (rev MAHARASHTRA_DISTRICTS) (None, None)))\<rparr>"
    using nearest_district[where qlat = "18.52" and qlng = "73.85"
        and computedDistance = ?g
        and cache = "[js ''districts'' \<mapsto> Districts (rev MAHARASHTRA_DISTRICTS)]"
        and pool = None and ds = "rev MAHARASHTRA_DISTRICTS", THEN conjunct1]
    by simp
  have exact: "\<forall>e \<in> set MAHARASHTRA_DISTRICTS.
      \<exists>x y. getDistance 18.52 73.85 (lat e) (lng e) = Some x \<and>
        getDistance 18.52 73.85 (lat e) (lng e) = Some y \<and> \<bar>x - y\<bar> \<le> 1"
    using exact_distances_defined by fastforce
  have shifted: "\<forall>e \<in> set (rev MAHARASHTRA_DISTRICTS).
      \<exists>x y. ?g 18.52 73.85 (lat e) (lng e) = Some x \<and>
        getDistance 18.52 73.85 (lat e) (lng e) = Some y \<and> \<bar>x - y\<bar> \<le> 1"
  proof
    fix e
    assume "e \<in> set (rev MAHARASHTRA_DISTRICTS)"
    then obtain y where y: "getDistance 18.52 73.85 (lat e) (lng e) = Some y"
      using exact_distances_defined by auto
    have "?g 18.52 73.85 (lat e) (lng e) = Some (y + 1 / 2) \<and>
        getDistance 18.52 73.85 (lat e) (lng e) = Some y \<and> \<bar>(y + 1 / 2) - y\<bar> \<le> 1"
      using y by simp
    then show "\<exists>x y. ?g 18.52 73.85 (lat e) (lng e) = Some x \<and>
        getDistance 18.52 73.85 (lat e) (lng e) = Some y \<and> \<bar>x - y\<bar> \<le> 1"
      by blast
  qed
  note pune = nearest_district[THEN conjunct2, THEN conjunct2, THEN conjunct2, rule_format]
  have c: "fst (nearest getDistance 18.52 73.85 MAHARASHTRA_DISTRICTS (None, None))
          = Some \<lparr>name = js ''Pune'', lat = 18.5204, lng = 73.8567, code = js ''PUN''\<rparr>"
    by (rule pune[where ds = MAHARASHTRA_DISTRICTS and computedDistance = getDistance])
      (use exact in blast)
  have d: "fst (nearest ?g 18.52 73.85 (rev MAHARASHTRA_DISTRICTS) (None, None))
          = Some \<lparr>name = js ''Pune'', lat = 18.5204, lng = 73.8567, code = js ''PUN''\<rparr>"
    by (rule pune[where ds = "rev MAHARASHTRA_DISTRICTS" and computedDistance = ?g])
      (use shifted in simp)
  have e: "fst (nearest (\<lambda>a b c d. None) 18.52 73.85 MAHARASHTRA_DISTRICTS (None, None)) = None"
    by (rule nearest_district[THEN conjunct2, THEN conjunct2, THEN conjunct1, rule_format]) simp
  show ?thesis
    unfolding a b c d e by simp
qed

text \<open>
  C4 as stated fails for bodies with both coordinates present: when the cache is empty
  and the query fails, the answer is 500 and no district, the static list
  notwithstanding; and a coordinate 0 is answered 400.
\<close>

theorem nearest_district_counterexample:
  "snd (postLocationToDistrict getDistance Map.empty None
          \<lparr>body_lat = Some 18.52, body_lng = Some 73.85\<rparr>)
     = \<lparr>status = 500, body = ErrorMessage ''Location lookup failed''\<rparr>
   \<and> snd (postLocationToDistrict getDistance Map.empty
          (Some \<lparr>districts = [], performance = []\<rparr>)
          \<lparr>body_lat = Some 0, body_lng = Some 73.85\<rparr>)
     = \<lparr>status = 400, body = ErrorMessage ''Latitude and longitude required''\<rparr>"
  by (simp add: postLocationToDistrict_def falsy_def locateNearest_def)

end
